theory Spec2Isabelle
  imports Main "HOL-Library.Word"
begin

section \<open>JavaScript numbers\<close>

text \<open>
  Every TypeScript \<^verbatim>\<open>number\<close> is an IEEE-754 binary64 value. The numbers of this
  program are integers, and an integer of magnitude up to \<open>2 ^ 53\<close> is held exactly; the
  result of an addition or multiplication beyond that is rounded to the nearest value
  with a 53-bit significand, ties to the even significand. \<open>roundToDouble\<close> is that
  rounding on integers (valid below \<open>2 ^ 1024\<close>, where binary64 overflows to
  \<^verbatim>\<open>Infinity\<close>; the Fibonacci loop stays below it up to index 1476, and the loop
  counter is exact there too).
\<close>

function bitlen :: "int \<Rightarrow> nat" where
  "bitlen m = (if m \<le> 0 then 0 else Suc (bitlen (m div 2)))"
  by pat_completeness auto
termination
  by (relation "measure nat") auto

declare bitlen.simps [simp del]

definition roundToDouble :: "int \<Rightarrow> int" where
  "roundToDouble x =
     (let m = \<bar>x\<bar> in
      if m \<le> 2 ^ 53 then x
      else
        let e = bitlen m - 53;
            q = m div 2 ^ e;
            r = m mod 2 ^ e;
            half = 2 ^ (e - 1);
            q' = (if half < r \<or> (r = half \<and> odd q) then q + 1 else q)
        in sgn x * (q' * 2 ^ e))"

definition js_add :: "int \<Rightarrow> int \<Rightarrow> int" where
  "js_add a b = roundToDouble (a + b)"

definition js_mul :: "int \<Rightarrow> int \<Rightarrow> int" where
  "js_mul a b = roundToDouble (a * b)"

section \<open>Fibonacci indentation (the command variant)\<close>

text \<open>
  \<^verbatim>\<open>function fibonacci(n)\<close>: returns \<open>n\<close> itself when \<open>n \<le> 1\<close>; otherwise the loop
  \<^verbatim>\<open>for (let i = 2; i <= n; i++) { let temp = a + b; a = b; b = temp; }\<close> started at
  \<open>a = 0\<close>, \<open>b = 1\<close>, whose state is the triple \<open>(i, a, b)\<close>.
\<close>

function fibonacci_loop :: "int \<Rightarrow> int \<Rightarrow> int \<Rightarrow> int \<Rightarrow> int" where
  "fibonacci_loop n i a b =
     (if i \<le> n then fibonacci_loop n (i + 1) b (js_add a b) else b)"
  by pat_completeness auto
termination
  by (relation "measure (\<lambda>(n, i, a, b). nat (n + 1 - i))") auto

declare fibonacci_loop.simps [simp del]

definition fibonacci :: "int \<Rightarrow> int" where
  "fibonacci n = (if n \<le> 1 then n else fibonacci_loop n 2 0 1)"

definition getFibonacciSpacesForDepth :: "int \<Rightarrow> int" where
  "getFibonacciSpacesForDepth depth =
     (if depth = 0 then 0
      else let multiplier = 2; fibIndex = depth + 1
           in js_mul (fibonacci fibIndex) multiplier)"

text \<open>
  The specification's side: the standard Fibonacci sequence, \<open>F(0) = 0\<close>, \<open>F(1) = 1\<close>,
  \<open>F(n) = F(n - 1) + F(n - 2)\<close>. \<open>Fib_pair\<close> walks it two values at a time, which
  evaluates in linear time.
\<close>

fun Fib :: "nat \<Rightarrow> int" where
  "Fib 0 = 0"
| "Fib (Suc 0) = 1"
| "Fib (Suc (Suc n)) = Fib (Suc n) + Fib n"

fun Fib_pair :: "nat \<Rightarrow> int \<times> int" where
  "Fib_pair 0 = (0, 1)"
| "Fib_pair (Suc n) = (case Fib_pair n of (a, b) \<Rightarrow> (b, a + b))"

section \<open>Lines, documents and the editor's edit batch\<close>

text \<open>
  A TypeScript string is a sequence of UTF-16 code units, and \<^verbatim>\<open>text.length\<close> counts
  them. A document is the list of its lines' texts (\<^verbatim>\<open>doc.lineAt(i).text\<close>,
  \<^verbatim>\<open>doc.lineCount\<close>). \<open>isWhiteSpace\<close> is the regular-expression class \<^verbatim>\<open>\s\<close>;
  \<open>leadingLength\<close> is \<^verbatim>\<open>text.match(/^\s*/)?.[0]?.length || 0\<close>, the length of the
  longest prefix of white space; \<open>repeatSpace n\<close> is \<^verbatim>\<open>' '.repeat(n)\<close>; \<open>js\<close> writes an
  ASCII literal as code units.
\<close>

type_synonym code_unit = "16 word"
type_synonym jsstring = "code_unit list"
type_synonym document = "jsstring list"

definition isWhiteSpace :: "code_unit \<Rightarrow> bool" where
  "isWhiteSpace c \<longleftrightarrow>
     (0x0009 \<le> c \<and> c \<le> 0x000D) \<or> c = 0x0020 \<or> c = 0x00A0 \<or> c = 0x1680 \<or>
     (0x2000 \<le> c \<and> c \<le> 0x200A) \<or> c = 0x2028 \<or> c = 0x2029 \<or> c = 0x202F \<or>
     c = 0x205F \<or> c = 0x3000 \<or> c = 0xFEFF"

definition SPACE :: code_unit where
  "SPACE = 0x0020"

definition js :: "string \<Rightarrow> jsstring" where
  "js s = map of_char s"

definition repeatSpace :: "nat \<Rightarrow> jsstring" where
  "repeatSpace n = replicate n SPACE"

definition leadingLength :: "jsstring \<Rightarrow> nat" where
  "leadingLength text = length (takeWhile isWhiteSpace text)"

text \<open>
  \<^verbatim>\<open>doc.lineAt(i)\<close> throws on a line number outside the document.
\<close>

definition illegalLine :: string where
  "illegalLine = ''Illegal value for line''"

definition lineAt :: "document \<Rightarrow> nat \<Rightarrow> jsstring option" where
  "lineAt doc i = (if i < length doc then Some (doc ! i) else None)"

text \<open>
  \<^verbatim>\<open>new vscode.Range(startLine, startCharacter, endLine, endCharacter)\<close>. The program
  builds ranges inside one line only. The editor's \<^verbatim>\<open>editBuilder.replace(range, text)\<close>
  puts \<open>text\<close> in place of the characters of the range;
  \<^verbatim>\<open>insert(new Position(i, 0), text)\<close> is the replacement of the empty range at
  \<open>(i, 0)\<close> and \<^verbatim>\<open>delete(range)\<close> the replacement by the empty string.
  \<^verbatim>\<open>editor.edit\<close> applies the batch at once, every range read against the document
  before the batch; the batches of this program touch each line at most once, so
  applying them one after the other gives the same document.
\<close>

record vsrange =
  startLine :: nat
  startCharacter :: nat
  endLine :: nat
  endCharacter :: nat

definition replaceInDocument :: "vsrange \<times> jsstring \<Rightarrow> document \<Rightarrow> document" where
  "replaceInDocument e doc =
     (case e of (r, newText) \<Rightarrow>
        doc[startLine r := take (startCharacter r) (doc ! startLine r) @ newText @
                           drop (endCharacter r) (doc ! startLine r)])"

definition hostEdit :: "(vsrange \<times> jsstring) list \<Rightarrow> document \<Rightarrow> document" where
  "hostEdit es doc = fold replaceInDocument es doc"

text \<open>
  A \<^verbatim>\<open>vscode.Selection\<close> is built from an anchor and an active position; its
  \<^verbatim>\<open>start\<close> is the earlier of the two and its \<^verbatim>\<open>end\<close> the later.
\<close>

record position =
  line :: nat
  character :: nat

record selection =
  anchor :: position
  active :: position

definition isBefore :: "position \<Rightarrow> position \<Rightarrow> bool" where
  "isBefore p q \<longleftrightarrow> line p < line q \<or> (line p = line q \<and> character p < character q)"

definition selStart :: "selection \<Rightarrow> position" where
  "selStart s = (if isBefore (active s) (anchor s) then active s else anchor s)"

definition selEnd :: "selection \<Rightarrow> position" where
  "selEnd s = (if isBefore (active s) (anchor s) then anchor s else active s)"

section \<open>The extension's state and what the host does during a pass\<close>

text \<open>
  The closure variables of \<^verbatim>\<open>activate\<close>: the busy flag, the rerun flag (only in the
  variant that reruns), the pending timers (document URI to delay in milliseconds), the
  last maximum (only in the variants that keep one) and the output channel, whose lines
  are kept as constructors with their arguments instead of formatted text.
\<close>

datatype logLine =
    NoPaddingEditsRequired string nat
  | AppliedPaddingEdits nat nat string
  | FailedToRestoreSelections string
  | ErrorDuringPadding string
  | ErrorAligning string
  | NoChangeInMaxLength nat string
  | AppliedLeftPadding nat string

record extension =
  isApplyingEdits :: bool
  needsRerun :: bool
  timers :: "string \<rightharpoonup> nat"
  lastMax :: "string \<rightharpoonup> nat"
  channel :: "logLine list"

text \<open>
  What a pass meets outside the program: whether the document is closed, whether an
  editor shows it, how the promise of \<^verbatim>\<open>editor.edit\<close> settles (it resolves to whether
  the batch was applied, or rejects with an error), whether assigning
  \<^verbatim>\<open>editor.selections\<close> throws, and how many change events the listener receives while
  the edit is awaited (the event of the batch itself among them). The document is not
  changed by anyone else during the pass.
\<close>

datatype editReply = Resolves bool | Rejects string

record host =
  docIsClosed :: bool
  editorFound :: bool
  editReply :: editReply
  selectionsReject :: "string option"
  changeEventsWhileBusy :: nat

section \<open>The cursor-preserving right-alignment pass (src/unnamed/part\_000)\<close>

text \<open>
  First loop of \<^verbatim>\<open>runAlignment\<close>: the content length of every line and the maximum.
\<close>

fun scanContents :: "jsstring list \<Rightarrow> nat \<times> nat list \<Rightarrow> nat \<times> nat list" where
  "scanContents [] (maxContentLen, contents) = (maxContentLen, contents)"
| "scanContents (text # rest) (maxContentLen, contents) =
     (let leading = leadingLength text;
          contentLen = length text - leading
      in scanContents rest
           (if contentLen > maxContentLen then contentLen else maxContentLen,
            contents @ [contentLen]))"

text \<open>
  Second loop: the edits, the per-line deltas and the desired leading width of every
  line. \<open>i\<close> is the loop counter, the list holds the lines from \<open>i\<close> on.
\<close>

record paddingEdit =
  editLine :: nat
  replaceRange :: vsrange
  newText :: jsstring

record plan =
  edits :: "paddingEdit list"
  lineDelta :: "nat \<rightharpoonup> int"
  desiredLeadingByLine :: "nat \<rightharpoonup> nat"

definition emptyPlan :: plan where
  "emptyPlan = \<lparr>edits = [], lineDelta = Map.empty, desiredLeadingByLine = Map.empty\<rparr>"

fun planEdits :: "nat \<Rightarrow> nat list \<Rightarrow> nat \<Rightarrow> jsstring list \<Rightarrow> plan \<Rightarrow> plan" where
  "planEdits maxContentLen contents i [] p = p"
| "planEdits maxContentLen contents i (text # rest) p =
     (let leading = leadingLength text;
          contentLen = (if i < length contents then contents ! i else 0);
          desiredLeading = nat (max 0 (int maxContentLen - int contentLen));
          p1 = p\<lparr>desiredLeadingByLine := (desiredLeadingByLine p)(i \<mapsto> desiredLeading)\<rparr>;
          p2 = (if leading \<noteq> desiredLeading
                then p1\<lparr>edits := edits p1 @
                          [\<lparr>editLine = i,
                            replaceRange = \<lparr>startLine = i, startCharacter = 0,
                                            endLine = i, endCharacter = leading\<rparr>,
                            newText = repeatSpace desiredLeading\<rparr>],
                        lineDelta := (lineDelta p1)(i \<mapsto> int desiredLeading - int leading)\<rparr>
                else p1)
      in planEdits maxContentLen contents (Suc i) rest p2)"

definition computePlan :: "document \<Rightarrow> nat \<times> plan" where
  "computePlan edoc =
     (case scanContents edoc (0, []) of
        (maxContentLen, contents) \<Rightarrow>
          (maxContentLen, planEdits maxContentLen contents 0 edoc emptyPlan))"

text \<open>
  The content offsets of the selections' two ends, captured before the edit.
\<close>

fun captureOffsets :: "document \<Rightarrow> selection list \<Rightarrow> (nat \<times> nat) list option" where
  "captureOffsets edoc [] = Some []"
| "captureOffsets edoc (s # rest) =
     (let startLine = line (selStart s);
          endLine = line (selEnd s)
      in case lineAt edoc startLine of
           None \<Rightarrow> None
         | Some startText \<Rightarrow>
            (case lineAt edoc endLine of
               None \<Rightarrow> None
             | Some endText \<Rightarrow>
                (let startLeading = leadingLength startText;
                     endLeading = leadingLength endText;
                     startOffset = nat (max 0 (int (character (selStart s)) - int startLeading));
                     endOffset = nat (max 0 (int (character (selEnd s)) - int endLeading))
                 in map_option ((#) (startOffset, endOffset)) (captureOffsets edoc rest))))"

text \<open>
  The selections rebuilt after the edit, from the desired widths and the offsets, each
  column clamped to the length the line has then. \<open>newDoc\<close> is \<^verbatim>\<open>editor.document\<close>
  after the edit; \<^verbatim>\<open>desiredLeadingByLine.get(l) || 0\<close> is 0 for a missing line, and
  reading \<^verbatim>\<open>offsets[idx]\<close> beyond the array throws.
\<close>

fun restoreSelections ::
  "(nat \<rightharpoonup> nat) \<Rightarrow> document \<Rightarrow> selection list \<Rightarrow> (nat \<times> nat) list \<Rightarrow> selection list option"
where
  "restoreSelections desiredByLine newDoc [] offsets = Some []"
| "restoreSelections desiredByLine newDoc (s # rest) [] = None"
| "restoreSelections desiredByLine newDoc (s # rest) (off # offsets) =
     (let startLine = line (selStart s);
          endLine = line (selEnd s);
          startDesired = (case desiredByLine startLine of Some d \<Rightarrow> d | None \<Rightarrow> 0);
          endDesired = (case desiredByLine endLine of Some d \<Rightarrow> d | None \<Rightarrow> 0);
          startOffset = fst off;
          endOffset = snd off;
          newStartCol = nat (max 0 (int startDesired + int startOffset));
          newEndCol = nat (max 0 (int endDesired + int endOffset))
      in case lineAt newDoc startLine of
           None \<Rightarrow> None
         | Some newStartText \<Rightarrow>
            (case lineAt newDoc endLine of
               None \<Rightarrow> None
             | Some newEndText \<Rightarrow>
                (let clampedStart = min newStartCol (length newStartText);
                     clampedEnd = min newEndCol (length newEndText)
                 in map_option
                      ((#) \<lparr>anchor = \<lparr>line = startLine, character = clampedStart\<rparr>,
                            active = \<lparr>line = endLine, character = clampedEnd\<rparr>\<rparr>)
                      (restoreSelections desiredByLine newDoc rest offsets))))"

text \<open>
  The \<^verbatim>\<open>try\<close> block. Its result is the error thrown, if any, with the state, the
  document and the selections assigned to the editor (if any) at that point.
\<close>

definition tryBlock_cursor ::
  "host \<Rightarrow> string \<Rightarrow> selection list \<Rightarrow> extension \<Rightarrow> document \<Rightarrow>
   string option \<times> extension \<times> document \<times> selection list option"
where
  "tryBlock_cursor h uri oldSelections st edoc =
     (case computePlan edoc of
        (maxContentLen, p) \<Rightarrow>
          if edits p = [] then
            (None,
             st\<lparr>lastMax := (lastMax st)(uri \<mapsto> maxContentLen),
                channel := channel st @ [NoPaddingEditsRequired uri maxContentLen]\<rparr>,
             edoc, None)
          else
            (case captureOffsets edoc oldSelections of
               None \<Rightarrow> (Some illegalLine, st, edoc, None)
             | Some offsets \<Rightarrow>
                (let st1 = st\<lparr>isApplyingEdits := True\<rparr> in
                 case editReply h of
                   Rejects err \<Rightarrow> (Some err, st1, edoc, None)
                 | Resolves applied \<Rightarrow>
                    (let newDoc =
                           (if applied
                            then hostEdit (map (\<lambda>e. (replaceRange e, newText e)) (edits p)) edoc
                            else edoc)
                     in case restoreSelections (desiredLeadingByLine p) newDoc
                               oldSelections offsets of
                          None \<Rightarrow> (Some illegalLine, st1, newDoc, None)
                        | Some newSelections \<Rightarrow>
                           (let st2 = (case selectionsReject h of
                                         Some err \<Rightarrow>
                                           st1\<lparr>channel := channel st1 @
                                                  [FailedToRestoreSelections err]\<rparr>
                                       | None \<Rightarrow> st1);
                                assigned = (case selectionsReject h of
                                              Some err \<Rightarrow> None
                                            | None \<Rightarrow> Some newSelections)
                            in (None,
                                st2\<lparr>lastMax := (lastMax st2)(uri \<mapsto> maxContentLen),
                                    channel := channel st2 @
                                      [AppliedPaddingEdits (length (edits p)) maxContentLen uri]\<rparr>,
                                newDoc, assigned))))))"

text \<open>
  \<^verbatim>\<open>runAlignment\<close>: the timer's entry is removed, a closed document or a missing
  editor ends the pass, and the \<^verbatim>\<open>try\<close> block runs under
  \<^verbatim>\<open>catch\<close> (the error is logged) and \<^verbatim>\<open>finally\<close> (the busy flag is cleared).
\<close>

definition runAlignment_cursor ::
  "host \<Rightarrow> string \<Rightarrow> selection list \<Rightarrow> extension \<Rightarrow> document \<Rightarrow>
   extension \<times> document \<times> selection list option"
where
  "runAlignment_cursor h uri oldSelections st doc =
     (let st0 = st\<lparr>timers := (timers st)(uri := None)\<rparr> in
      if docIsClosed h then (st0, doc, None)
      else if \<not> editorFound h then (st0, doc, None)
      else
        (case tryBlock_cursor h uri oldSelections st0 doc of
           (thrown, st1, doc1, assigned) \<Rightarrow>
             (let st2 = (case thrown of
                           Some err \<Rightarrow> st1\<lparr>channel := channel st1 @ [ErrorDuringPadding err]\<rparr>
                         | None \<Rightarrow> st1);
                  st3 = st2\<lparr>isApplyingEdits := False\<rparr>
              in (st3, doc1, assigned))))"

section \<open>The rerunning right-alignment pass (src/unnamed/part\_001, first module)\<close>

record lineContent =
  lcText :: jsstring
  lcLeading :: nat
  lcContentLen :: nat

fun scanLines ::
  "jsstring list \<Rightarrow> nat \<times> lineContent list \<Rightarrow> nat \<times> lineContent list"
where
  "scanLines [] (maxContentLen, lineContents) = (maxContentLen, lineContents)"
| "scanLines (text # rest) (maxContentLen, lineContents) =
     (let leading = leadingLength text;
          contentLen = length text - leading
      in scanLines rest
           (if contentLen > maxContentLen then contentLen else maxContentLen,
            lineContents @ [\<lparr>lcText = text, lcLeading = leading, lcContentLen = contentLen\<rparr>]))"

definition desiredLeadingOf :: "nat \<Rightarrow> lineContent \<Rightarrow> nat" where
  "desiredLeadingOf maxContentLen lc =
     nat (max 0 (int maxContentLen - int (lcContentLen lc)))"

fun collectEdits ::
  "nat \<Rightarrow> nat \<Rightarrow> lineContent list \<Rightarrow> (vsrange \<times> jsstring) list \<Rightarrow> (vsrange \<times> jsstring) list"
where
  "collectEdits maxContentLen i [] es = es"
| "collectEdits maxContentLen i (lc # rest) es =
     (let leading = lcLeading lc;
          desiredLeading = desiredLeadingOf maxContentLen lc
      in collectEdits maxContentLen (Suc i) rest
           (if leading \<noteq> desiredLeading
            then es @ [(\<lparr>startLine = i, startCharacter = 0, endLine = i, endCharacter = leading\<rparr>,
                        repeatSpace desiredLeading)]
            else es))"

definition computeEdits :: "document \<Rightarrow> (vsrange \<times> jsstring) list" where
  "computeEdits edoc =
     (case scanLines edoc (0, []) of
        (maxContentLen, lineContents) \<Rightarrow> collectEdits maxContentLen 0 lineContents [])"

text \<open>
  The \<^verbatim>\<open>try\<close> block sets the busy flag first. While the edit is awaited the listener
  answers every change event by setting the rerun flag.
\<close>

definition tryBlock_rerun ::
  "host \<Rightarrow> extension \<Rightarrow> document \<Rightarrow> string option \<times> extension \<times> document"
where
  "tryBlock_rerun h st edoc =
     (let st1 = st\<lparr>isApplyingEdits := True\<rparr>;
          es = computeEdits edoc
      in if es = [] then (None, st1\<lparr>isApplyingEdits := False\<rparr>, edoc)
         else
           (let st2 = (if 0 < changeEventsWhileBusy h then st1\<lparr>needsRerun := True\<rparr> else st1)
            in case editReply h of
                 Rejects err \<Rightarrow> (Some err, st2, edoc)
               | Resolves applied \<Rightarrow>
                   (None, st2, if applied then hostEdit es edoc else edoc)))"

definition runAlignment_rerun ::
  "host \<Rightarrow> string \<Rightarrow> extension \<Rightarrow> document \<Rightarrow> extension \<times> document"
where
  "runAlignment_rerun h uri st doc =
     (let st0 = st\<lparr>timers := (timers st)(uri := None)\<rparr> in
      if docIsClosed h then (st0, doc)
      else if \<not> editorFound h then (st0, doc)
      else
        (case tryBlock_rerun h st0 doc of
           (thrown, st1, doc1) \<Rightarrow>
             (let st2 = (case thrown of
                           Some err \<Rightarrow> st1\<lparr>channel := channel st1 @ [ErrorAligning err]\<rparr>
                         | None \<Rightarrow> st1);
                  st3 = st2\<lparr>isApplyingEdits := False\<rparr>;
                  st4 = (if needsRerun st3
                         then st3\<lparr>needsRerun := False, timers := (timers st3)(uri \<mapsto> 0)\<rparr>
                         else st3)
              in (st4, doc1))))"

section \<open>Padding to the longest line (src/src/extension.ts)\<close>

text \<open>
  The loop for the longest line's length, and the inserts of the edit callback: every
  line shorter than the maximum gets the missing spaces at column 0. The timer callback
  of \<^verbatim>\<open>extension.ts\<close>, and the command \<^verbatim>\<open>alignDocument\<close> and the change listener of
  the module with the commands, have both loops alike.
\<close>

fun maxLineLength :: "jsstring list \<Rightarrow> nat \<Rightarrow> nat" where
  "maxLineLength [] maxLen = maxLen"
| "maxLineLength (text # rest) maxLen =
     (let len = length text
      in maxLineLength rest (if len > maxLen then len else maxLen))"

fun padInserts :: "nat \<Rightarrow> nat \<Rightarrow> jsstring list \<Rightarrow> (vsrange \<times> jsstring) list" where
  "padInserts maxLen i [] = []"
| "padInserts maxLen i (text # rest) =
     (let pad = int maxLen - int (length text)
      in (if pad > 0
          then [(\<lparr>startLine = i, startCharacter = 0, endLine = i, endCharacter = 0\<rparr>,
                 repeatSpace (nat pad))]
          else []) @ padInserts maxLen (Suc i) rest)"

definition tryBlock_padding ::
  "host \<Rightarrow> string \<Rightarrow> extension \<Rightarrow> document \<Rightarrow> string option \<times> extension \<times> document"
where
  "tryBlock_padding h uri st doc =
     (let maxLen = maxLineLength doc 0;
          prev = (case lastMax st uri of Some v \<Rightarrow> v | None \<Rightarrow> 0)
      in if maxLen = prev
         then (None, st\<lparr>channel := channel st @ [NoChangeInMaxLength maxLen uri]\<rparr>, doc)
         else
           (let st1 = st\<lparr>isApplyingEdits := True\<rparr> in
            case editReply h of
              Rejects err \<Rightarrow> (Some err, st1, doc)
            | Resolves applied \<Rightarrow>
                (None,
                 st1\<lparr>lastMax := (lastMax st1)(uri \<mapsto> maxLen),
                     channel := channel st1 @ [AppliedLeftPadding maxLen uri]\<rparr>,
                 if applied then hostEdit (padInserts maxLen 0 doc) doc else doc)))"

definition alignmentTimer_padding ::
  "host \<Rightarrow> string \<Rightarrow> extension \<Rightarrow> document \<Rightarrow> extension \<times> document"
where
  "alignmentTimer_padding h uri st doc =
     (let st0 = st\<lparr>timers := (timers st)(uri := None)\<rparr> in
      if docIsClosed h then (st0, doc)
      else if \<not> editorFound h then (st0, doc)
      else
        (case tryBlock_padding h uri st0 doc of
           (thrown, st1, doc1) \<Rightarrow>
             (let st2 = (case thrown of
                           Some err \<Rightarrow> st1\<lparr>channel := channel st1 @ [ErrorDuringPadding err]\<rparr>
                         | None \<Rightarrow> st1);
                  st3 = st2\<lparr>isApplyingEdits := False\<rparr>
              in (st3, doc1))))"

section \<open>The commands and the change listener (src/unnamed/part\_001, second module)\<close>

text \<open>
  The module registers a change listener beside its two commands. On a change event the
  listener returns at once when the busy flag is set or no visible editor shows the
  document; otherwise it looks for a line shorter than the longest one and, if there is
  one, pads every shorter line to the longest length, with the busy flag set while the
  edit is awaited and cleared in \<^verbatim>\<open>finally\<close> (an error is caught and written to the
  console). \<open>needsPadding\<close> is the loop that sets \<^verbatim>\<open>needEdit\<close>; \<open>busyFlag\<close> is this
  module's \<^verbatim>\<open>isApplyingEdits\<close>. The result is the flag and the document after the
  listener.
\<close>

fun needsPadding :: "nat \<Rightarrow> jsstring list \<Rightarrow> bool" where
  "needsPadding maxLength [] = False"
| "needsPadding maxLength (text # rest) =
     (let len = length text
      in if len < maxLength then True else needsPadding maxLength rest)"

definition changeListener :: "host \<Rightarrow> bool \<Rightarrow> document \<Rightarrow> bool \<times> document" where
  "changeListener h busyFlag doc =
     (if busyFlag then (busyFlag, doc)
      else if \<not> editorFound h then (busyFlag, doc)
      else
        (let maxLength = maxLineLength doc 0;
             needEdit = needsPadding maxLength doc
         in if \<not> needEdit then (False, doc)
            else
              (case editReply h of
                 Rejects err \<Rightarrow> (False, doc)
               | Resolves applied \<Rightarrow>
                   (False,
                    if applied then hostEdit (padInserts maxLength 0 doc) doc else doc))))"

text \<open>
  The commands do not touch the busy flag, so the change event of a command's batch
  reaches the listener like a user's edit. \<open>editAndNotify\<close> is
  \<^verbatim>\<open>await editor.edit(...)\<close> in a command: when the batch is applied and changes the
  document, the host raises the change event and the listener answers it; the flag is
  clear then, since it is set only while an edit of the listener is awaited. A rejected
  or refused batch leaves the document as it is. The host's reply is taken alike for the
  command's batch and for the listener's.
\<close>

definition editAndNotify :: "host \<Rightarrow> (vsrange \<times> jsstring) list \<Rightarrow> document \<Rightarrow> document" where
  "editAndNotify h batch document =
     (case editReply h of
        Rejects err \<Rightarrow> document
      | Resolves applied \<Rightarrow>
          if applied \<and> batch \<noteq> []
          then snd (changeListener h False (hostEdit batch document))
          else document)"

text \<open>
  The commands \<^verbatim>\<open>alignDocument\<close> and \<^verbatim>\<open>unalignDocument\<close>, on the active editor's
  document; \<open>None\<close> is no active editor.
\<close>

definition alignDocument :: "host \<Rightarrow> document option \<Rightarrow> document option" where
  "alignDocument h activeTextEditor =
     (case activeTextEditor of
        None \<Rightarrow> None
      | Some document \<Rightarrow>
          (let maxLength = maxLineLength document 0
           in Some (editAndNotify h (padInserts maxLength 0 document) document)))"

fun unalignDeletes :: "nat \<Rightarrow> jsstring list \<Rightarrow> (vsrange \<times> jsstring) list" where
  "unalignDeletes i [] = []"
| "unalignDeletes i (text # rest) =
     (if length text > 0 \<and> text ! 0 = SPACE
      then [(\<lparr>startLine = i, startCharacter = 0, endLine = i, endCharacter = 1\<rparr>, [])]
      else []) @ unalignDeletes (Suc i) rest"

definition unalignDocument :: "host \<Rightarrow> document option \<Rightarrow> document option" where
  "unalignDocument h activeTextEditor =
     (case activeTextEditor of
        None \<Rightarrow> None
      | Some document \<Rightarrow> Some (editAndNotify h (unalignDeletes 0 document) document))"

section \<open>The specification's vocabulary and what the edits do to one line\<close>

text \<open>
  The specification's words: the leading-whitespace width of a line is the count of
  white-space characters at its start, before any other character; the content length
  is the line's length minus that width; the maximum content length is taken over all
  lines of the document.
\<close>

fun spec_leadingWidth :: "jsstring \<Rightarrow> nat" where
  "spec_leadingWidth [] = 0"
| "spec_leadingWidth (c # cs) = (if isWhiteSpace c then Suc (spec_leadingWidth cs) else 0)"

definition spec_contentLength :: "jsstring \<Rightarrow> nat" where
  "spec_contentLength text = length text - spec_leadingWidth text"

definition spec_maxContentLength :: "document \<Rightarrow> nat" where
  "spec_maxContentLength doc = Max (spec_contentLength ` set doc)"

text \<open>
  For the proofs: the record the rerunning pass keeps of a line, the edit of one line as
  both right-alignment passes compute it, and the effect of each batch on one line.
\<close>

definition lineContentOf :: "jsstring \<Rightarrow> lineContent" where
  "lineContentOf text =
     \<lparr>lcText = text, lcLeading = leadingLength text,
      lcContentLen = length text - leadingLength text\<rparr>"

fun lineEdits :: "nat \<Rightarrow> nat \<Rightarrow> jsstring list \<Rightarrow> (vsrange \<times> jsstring) list" where
  "lineEdits m i [] = []"
| "lineEdits m i (text # rest) =
     (if leadingLength text \<noteq> m - spec_contentLength text
      then [(\<lparr>startLine = i, startCharacter = 0, endLine = i,
               endCharacter = leadingLength text\<rparr>,
             repeatSpace (m - spec_contentLength text))]
      else []) @ lineEdits m (Suc i) rest"

definition alignLine :: "nat \<Rightarrow> jsstring \<Rightarrow> jsstring" where
  "alignLine m text =
     (if leadingLength text \<noteq> m - spec_contentLength text
      then repeatSpace (m - spec_contentLength text) @ drop (leadingLength text) text
      else text)"

definition padLine :: "nat \<Rightarrow> jsstring \<Rightarrow> jsstring" where
  "padLine m text = repeatSpace (m - length text) @ text"

definition unalignLine :: "jsstring \<Rightarrow> jsstring" where
  "unalignLine text = (if length text > 0 \<and> text ! 0 = SPACE then drop 1 text else text)"

definition maxContentLenOf :: "document \<Rightarrow> nat" where
  "maxContentLenOf doc = fold max (map spec_contentLength doc) 0"

definition pairOf :: "paddingEdit \<Rightarrow> vsrange \<times> jsstring" where
  "pairOf e = (replaceRange e, newText e)"

text \<open>
  Concrete inputs: a host that shows the document and applies the batch, the extension's
  state right after activation, the specification's scenario with one selection, and a
  document on which the two commands are run.
\<close>

definition readyHost :: host where
  "readyHost = \<lparr>docIsClosed = False, editorFound = True, editReply = Resolves True,
                 selectionsReject = None, changeEventsWhileBusy = 1\<rparr>"

definition idleExtension :: extension where
  "idleExtension = \<lparr>isApplyingEdits = False, needsRerun = False, timers = Map.empty,
                     lastMax = Map.empty, channel = []\<rparr>"

definition scenarioDocument :: document where
  "scenarioDocument = [js ''a'', js ''bb'', js ''ccc'']"

definition scenarioSelections :: "selection list" where
  "scenarioSelections =
     [\<lparr>anchor = \<lparr>line = 0, character = 1\<rparr>, active = \<lparr>line = 1, character = 0\<rparr>\<rparr>]"



definition rejectingHost :: host where
  "rejectingHost = \<lparr>docIsClosed = False, editorFound = True,
                     editReply = Rejects ''editor closed'',
                     selectionsReject = None, changeEventsWhileBusy = 0\<rparr>"

section \<open>Properties of the Fibonacci indentation\<close>

lemma Fib_pair_eq: "Fib_pair n = (Fib n, Fib (Suc n))"
  by (induction n) auto

lemma Fib_nonneg: "0 \<le> Fib n"
  by (induction n rule: Fib.induct) auto

lemma Fib_step_le: "Fib n \<le> Fib (Suc n)"
  using Fib_nonneg [of "n - 1"] by (cases n) auto

lemma Fib_mono: "m \<le> n \<Longrightarrow> Fib m \<le> Fib n"
  by (rule lift_Suc_mono_le [of Fib, OF Fib_step_le])

lemma Fib_pair_78: "Fib_pair 78 = (8944394323791464, 14472334024676221)"
  by code_simp

lemma Fib_78: "Fib 78 = 8944394323791464"
  using Fib_pair_78 by (simp add: Fib_pair_eq)

lemma Fib_79: "Fib 79 = 14472334024676221"
proof -
  have "Fib (Suc 78) = 14472334024676221"
    using Fib_pair_78 by (simp add: Fib_pair_eq)
  then show ?thesis by simp
qed

lemma roundToDouble_small: "\<bar>x\<bar> \<le> 2 ^ 53 \<Longrightarrow> roundToDouble x = x"
  by (simp add: roundToDouble_def)

lemma Fib_exact: "n \<le> 78 \<Longrightarrow> roundToDouble (Fib n) = Fib n"
proof -
  assume "n \<le> 78"
  then have "Fib n \<le> Fib 78" by (rule Fib_mono)
  then have "\<bar>Fib n\<bar> \<le> 2 ^ 53" using Fib_nonneg [of n] by (simp add: Fib_78)
  then show ?thesis by (rule roundToDouble_small)
qed

text \<open>
  The loop invariant: entering iteration \<open>i = k\<close> with \<open>a = F(k - 2)\<close> and
  \<open>b = F(k - 1)\<close>, the loop ends with \<open>F(n)\<close>, as long as no sum leaves the exact range.
\<close>

lemma fibonacci_loop_Fib:
  "2 \<le> k \<Longrightarrow> int k \<le> n + 1 \<Longrightarrow> n \<le> 78 \<Longrightarrow>
   fibonacci_loop n (int k) (Fib (k - 2)) (Fib (k - 1)) = Fib (nat n)"
proof (induction "nat (n + 1) - k" arbitrary: k)
  case 0
  then have "int k = n + 1" by simp
  then have "\<not> int k \<le> n" "nat n = k - 1" by auto
  then show ?case by (simp add: fibonacci_loop.simps [of n "int k"])
next
  case (Suc d)
  then have le: "int k \<le> n" by linarith
  obtain j where k: "k = Suc (Suc j)" using Suc.prems(1)
    by (metis One_nat_def Suc_1 Suc_le_D Suc_le_mono)
  have "k \<le> 78" using le Suc.prems(3) by linarith
  then have sum: "js_add (Fib (k - 2)) (Fib (k - 1)) = Fib k"
    using Fib_exact [of k] by (simp add: k js_add_def add.commute)
  have idx: "Suc k - 2 = k - 1" "Suc k - 1 = k" "int (Suc k) = int k + 1"
    using Suc.prems(1) by auto
  have "fibonacci_loop n (int (Suc k)) (Fib (Suc k - 2)) (Fib (Suc k - 1)) = Fib (nat n)"
    using Suc.hyps(2) Suc.prems le by (intro Suc.hyps(1)) auto
  then have rest: "fibonacci_loop n (int k + 1) (Fib (k - 1)) (Fib k) = Fib (nat n)"
    by (simp only: idx)
  have "fibonacci_loop n (int k) (Fib (k - 2)) (Fib (k - 1)) =
        fibonacci_loop n (int k + 1) (Fib (k - 1)) (js_add (Fib (k - 2)) (Fib (k - 1)))"
    using le by (subst fibonacci_loop.simps) simp
  then show ?case by (simp only: sum rest)
qed

lemma fibonacci_Fib: "0 \<le> n \<Longrightarrow> n \<le> 78 \<Longrightarrow> fibonacci n = Fib (nat n)"
proof -
  assume n: "0 \<le> n" "n \<le> 78"
  show ?thesis
  proof (cases "n \<le> 1")
    case True
    with n have "n = 0 \<or> n = 1" by auto
    then show ?thesis by (auto simp: fibonacci_def)
  next
    case False
    then have "fibonacci_loop n (int 2) (Fib (2 - 2)) (Fib (2 - 1)) = Fib (nat n)"
      using n by (intro fibonacci_loop_Fib) auto
    then show ?thesis using False by (simp add: fibonacci_def)
  qed
qed

lemma bitlen_between: "2 ^ k \<le> m \<Longrightarrow> m < 2 ^ Suc k \<Longrightarrow> bitlen m = Suc k"
proof (induction k arbitrary: m)
  case 0
  then have "m = 1" by simp
  then show ?case by (simp add: bitlen.simps [of 1] bitlen.simps [of 0])
next
  case (Suc k)
  have pos: "0 < m" using Suc.prems(1) by (smt (verit) zero_less_power)
  have "2 ^ k \<le> m div 2" "m div 2 < 2 ^ Suc k"
    using Suc.prems by auto
  then have "bitlen (m div 2) = Suc k" by (rule Suc.IH)
  then show ?case using pos by (simp add: bitlen.simps [of m])
qed

lemma doubling_exact:
  assumes "0 \<le> x" "x < 2 ^ 53"
  shows "roundToDouble (x * 2) = x * 2"
proof (cases "x * 2 \<le> 2 ^ 53")
  case True
  then show ?thesis using assms by (simp add: roundToDouble_def)
next
  case False
  then have "2 ^ 53 \<le> x * 2" "x * 2 < 2 ^ Suc 53" using assms by auto
  then have "bitlen (x * 2) = Suc 53" by (rule bitlen_between)
  then show ?thesis using False assms by (simp add: roundToDouble_def Let_def)
qed

text \<open>
  Claim C10, as amended. For every natural number \<open>n\<close> up to 78, \<open>fibonacci n\<close> is the
  standard Fibonacci number \<open>F(n)\<close> (\<open>F(0) = 0\<close>, \<open>F(1) = 1\<close>,
  \<open>F(n) = F(n - 1) + F(n - 2)\<close>). The bound is where the sums stop being exact in a
  \<^verbatim>\<open>number\<close>: \<open>F(78) < 2 ^ 53 < F(79)\<close>.
\<close>

theorem fibonacci_standard:
  "0 \<le> n \<Longrightarrow> n \<le> 78 \<Longrightarrow> fibonacci n = Fib (nat n)"
  by (rule fibonacci_Fib)

theorem fibonacci_standard_witness:
  "(0::int) \<le> 10 \<and> (10::int) \<le> 78 \<and> fibonacci 10 = Fib (nat 10) \<and> Fib (nat 10) = 55"
proof -
  have "fibonacci 10 = Fib (nat 10)"
    using fibonacci_standard [of 10] by simp
  moreover have "Fib (nat 10) = 55"
    by code_simp
  ultimately show ?thesis by simp
qed

text \<open>
  Claim C10 as stated (every natural number) fails at \<open>n = 79\<close>: \<open>F(79)\<close> is the odd
  number 14472334024676221, above \<open>2 ^ 53\<close>, and the sum \<open>F(77) + F(78)\<close> is rounded
  to the even 14472334024676220.
\<close>

theorem fibonacci_79_counterexample:
  "fibonacci 79 = 14472334024676220 \<and> Fib 79 = 14472334024676221 \<and> fibonacci 79 \<noteq> Fib 79"
proof -
  have "fibonacci 79 = 14472334024676220"
    by code_simp
  then show ?thesis by (simp add: Fib_79)
qed

text \<open>
  Claim C6, as amended. For every nesting depth \<open>d\<close> from 0 to 77,
  \<open>getFibonacciSpacesForDepth d\<close> is 0 when \<open>d = 0\<close> and \<open>F(d + 1) \<times> 2\<close> otherwise.
\<close>

theorem getFibonacciSpacesForDepth_formula:
  assumes "0 \<le> d" "d \<le> 77"
  shows "getFibonacciSpacesForDepth d = (if d = 0 then 0 else Fib (nat d + 1) * 2)"
proof (cases "d = 0")
  case True
  then show ?thesis by (simp add: getFibonacciSpacesForDepth_def)
next
  case False
  have fib: "fibonacci (d + 1) = Fib (nat d + 1)"
    using assms fibonacci_Fib [of "d + 1"] by (simp add: nat_add_distrib)
  have "Fib (nat d + 1) \<le> Fib 78" using assms by (intro Fib_mono) auto
  then have "Fib (nat d + 1) < 2 ^ 53" by (simp add: Fib_78)
  then have "roundToDouble (Fib (nat d + 1) * 2) = Fib (nat d + 1) * 2"
    using Fib_nonneg by (intro doubling_exact) auto
  then show ?thesis using False fib
    by (simp add: getFibonacciSpacesForDepth_def js_mul_def)
qed

theorem getFibonacciSpacesForDepth_formula_witness:
  "(0::int) \<le> 6 \<and> (6::int) \<le> 77 \<and> getFibonacciSpacesForDepth 6 = Fib 7 * 2 \<and> Fib 7 * 2 = 26"
proof -
  have "getFibonacciSpacesForDepth 6 = Fib (nat 6 + 1) * 2"
    using getFibonacciSpacesForDepth_formula [of 6] by simp
  moreover have "nat 6 + 1 = (7::nat)" by simp
  moreover have "Fib 7 * 2 = 26" by code_simp
  ultimately show ?thesis by simp
qed

text \<open>
  Claim C6 as stated (every nesting depth) fails at \<open>d = 78\<close>: the function returns
  28944668049352440, two less than \<open>F(79) \<times> 2\<close>.
\<close>

theorem getFibonacciSpacesForDepth_78_counterexample:
  "getFibonacciSpacesForDepth 78 = 28944668049352440 \<and> Fib (78 + 1) * 2 = 28944668049352442
   \<and> getFibonacciSpacesForDepth 78 \<noteq> (if (78::int) = 0 then 0 else Fib (78 + 1) * 2)"
proof -
  have "getFibonacciSpacesForDepth 78 = 28944668049352440"
    by code_simp
  then show ?thesis by (simp add: Fib_79)
qed

text \<open>
  Claim C1, as amended. The widths of the first six nesting depths are
  0, 2, 4, 6, 10 and 16: depth \<open>d \<ge> 1\<close> takes \<open>F(d + 1) \<times> 2\<close>, which skips the repeated 1
  of the sequence, as the comment in the function says ("This gives: 2, 4, 6, 10, ...").
\<close>

theorem getFibonacciSpacesForDepth_table:
  "getFibonacciSpacesForDepth 0 = 0 \<and> getFibonacciSpacesForDepth 1 = 2 \<and>
   getFibonacciSpacesForDepth 2 = 4 \<and> getFibonacciSpacesForDepth 3 = 6 \<and>
   getFibonacciSpacesForDepth 4 = 10 \<and> getFibonacciSpacesForDepth 5 = 16"
proof -
  have "getFibonacciSpacesForDepth 0 = 0" by code_simp
  moreover have "getFibonacciSpacesForDepth 1 = 2" by code_simp
  moreover have "getFibonacciSpacesForDepth 2 = 4" by code_simp
  moreover have "getFibonacciSpacesForDepth 3 = 6" by code_simp
  moreover have "getFibonacciSpacesForDepth 4 = 10" by code_simp
  moreover have "getFibonacciSpacesForDepth 5 = 16" by code_simp
  ultimately show ?thesis by simp
qed

text \<open>
  Claim C1 as stated (depth 2 gives 2, depth 3 gives 4, depth 4 gives 6, depth 5 gives 10)
  fails from depth 2 on: the function returns 4 there.
\<close>

theorem getFibonacciSpacesForDepth_table_counterexample:
  "\<not> (getFibonacciSpacesForDepth 0 = 0 \<and> getFibonacciSpacesForDepth 1 = 2 \<and>
      getFibonacciSpacesForDepth 2 = 2 \<and> getFibonacciSpacesForDepth 3 = 4 \<and>
      getFibonacciSpacesForDepth 4 = 6 \<and> getFibonacciSpacesForDepth 5 = 10)"
proof -
  have "getFibonacciSpacesForDepth 2 = 4" by code_simp
  then show ?thesis by simp
qed

section \<open>Leading white space and the effect of a batch\<close>

lemma leadingLength_le: "leadingLength text \<le> length text"
  by (simp add: leadingLength_def length_takeWhile_le)

lemma spec_leadingWidth_eq: "spec_leadingWidth t = leadingLength t"
  by (induction t) (simp_all add: leadingLength_def)

lemma spec_contentLength_eq: "spec_contentLength t = length t - leadingLength t"
  by (simp add: spec_contentLength_def spec_leadingWidth_eq)

lemma isWhiteSpace_SPACE: "isWhiteSpace SPACE"
  by (simp add: isWhiteSpace_def SPACE_def)

lemma leadingLength_repeat_content:
  "leadingLength (repeatSpace d @ drop (leadingLength text) text) = d"
proof -
  have "drop (leadingLength text) text = dropWhile isWhiteSpace text"
    by (simp add: leadingLength_def dropWhile_eq_drop)
  moreover have "takeWhile isWhiteSpace (dropWhile isWhiteSpace text) = []"
    by (metis hd_dropWhile list.collapse takeWhile.simps(1) takeWhile.simps(2))
  moreover have "takeWhile isWhiteSpace (replicate d SPACE @ dropWhile isWhiteSpace text)
                 = replicate d SPACE @ takeWhile isWhiteSpace (dropWhile isWhiteSpace text)"
    by (rule takeWhile_append2) (simp add: isWhiteSpace_SPACE)
  ultimately show ?thesis
    by (simp add: leadingLength_def repeatSpace_def)
qed

lemma contentLength_repeat_content:
  "spec_contentLength (repeatSpace d @ drop (leadingLength text) text) = spec_contentLength text"
  using leadingLength_repeat_content [of d "text"]
  by (simp add: spec_contentLength_eq repeatSpace_def)

lemma contentLength_alignLine: "spec_contentLength (alignLine m text) = spec_contentLength text"
  by (simp add: alignLine_def contentLength_repeat_content)

lemma leadingLength_alignLine: "leadingLength (alignLine m text) = m - spec_contentLength text"
  by (simp add: alignLine_def leadingLength_repeat_content)

lemma replaceInDocument_at:
  "replaceInDocument (\<lparr>startLine = length pre, startCharacter = a, endLine = l, endCharacter = b\<rparr>, txt)
     (pre @ text # rest) = pre @ (take a text @ txt @ drop b text) # rest"
  by (simp add: replaceInDocument_def)

lemma hostEdit_Nil: "hostEdit [] doc = doc"
  by (simp add: hostEdit_def)

lemma hostEdit_append: "hostEdit (es @ fs) doc = hostEdit fs (hostEdit es doc)"
  by (simp add: hostEdit_def)

lemma hostEdit_Cons: "hostEdit (e # es) doc = hostEdit es (replaceInDocument e doc)"
  by (simp add: hostEdit_def)

lemma hostEdit_lineEdits:
  "hostEdit (lineEdits m (length pre) lines) (pre @ lines) = pre @ map (alignLine m) lines"
proof (induction lines arbitrary: pre)
  case Nil
  show ?case by (simp add: hostEdit_Nil)
next
  case (Cons t rest)
  have step: "hostEdit (lineEdits m (Suc (length pre)) rest) ((pre @ [alignLine m t]) @ rest)
              = (pre @ [alignLine m t]) @ map (alignLine m) rest"
    using Cons.IH [of "pre @ [alignLine m t]"] by simp
  show ?case
  proof (cases "leadingLength t \<noteq> m - spec_contentLength t")
    case True
    then show ?thesis using step
      by (simp add: hostEdit_Cons replaceInDocument_at alignLine_def)
  next
    case False
    then show ?thesis using step
      by (simp add: alignLine_def)
  qed
qed

lemma lineEdits_Nil_iff:
  "lineEdits m i lines = [] \<longleftrightarrow> (\<forall>t \<in> set lines. leadingLength t = m - spec_contentLength t)"
  by (induction lines arbitrary: i) auto

section \<open>What the two right-alignment passes compute\<close>

lemma scanContents_eq:
  "scanContents lines (m, cs) =
     (fold max (map spec_contentLength lines) m, cs @ map spec_contentLength lines)"
proof (induction lines arbitrary: m cs)
  case Nil
  show ?case by simp
next
  case (Cons t rest)
  have "(if spec_contentLength t > m then spec_contentLength t else m) = max (spec_contentLength t) m"
    by (simp add: max_def)
  then show ?case
    using Cons.IH by (simp add: spec_contentLength_eq Let_def)
qed

lemma scanLines_eq:
  "scanLines lines (m, lcs) =
     (fold max (map spec_contentLength lines) m, lcs @ map lineContentOf lines)"
proof (induction lines arbitrary: m lcs)
  case Nil
  show ?case by simp
next
  case (Cons t rest)
  have "(if spec_contentLength t > m then spec_contentLength t else m) = max (spec_contentLength t) m"
    by (simp add: max_def)
  then show ?case
    using Cons.IH by (simp add: spec_contentLength_eq lineContentOf_def Let_def)
qed

lemma fold_max_Max: "fold max xs (m::nat) = Max (insert m (set xs))"
  using Max.set_eq_fold [of m xs] by simp

lemma maxContentLenOf_spec: "doc \<noteq> [] \<Longrightarrow> maxContentLenOf doc = spec_maxContentLength doc"
proof -
  assume ne: "doc \<noteq> []"
  let ?A = "spec_contentLength ` set doc"
  have "finite ?A" "?A \<noteq> {}" using ne by auto
  then have "Max (insert 0 ?A) = max 0 (Max ?A)" by (rule Max_insert)
  then show ?thesis
    by (simp add: maxContentLenOf_def fold_max_Max spec_maxContentLength_def)
qed

lemma contentLength_le_max: "t \<in> set doc \<Longrightarrow> spec_contentLength t \<le> maxContentLenOf doc"
  by (simp add: maxContentLenOf_def fold_max_Max)

lemma desiredLeadingOf_eq:
  "desiredLeadingOf m (lineContentOf t) = m - spec_contentLength t"
  by (simp add: desiredLeadingOf_def lineContentOf_def spec_contentLength_eq)

lemma clamp_eq: "nat (max 0 (int m - int c)) = m - c"
  by simp

lemma collectEdits_eq:
  "collectEdits m i (map lineContentOf lines) es = es @ lineEdits m i lines"
proof (induction lines arbitrary: i es)
  case Nil
  show ?case by simp
next
  case (Cons t rest)
  have "lcLeading (lineContentOf t) = leadingLength t"
    by (simp add: lineContentOf_def)
  then show ?case
    using Cons.IH by (simp add: desiredLeadingOf_eq Let_def)
qed

lemma computeEdits_eq: "computeEdits doc = lineEdits (maxContentLenOf doc) 0 doc"
  by (simp add: computeEdits_def scanLines_eq collectEdits_eq maxContentLenOf_def)

lemma planEdits_edits:
  "map pairOf (edits (planEdits m (pre @ map spec_contentLength lines) (length pre) lines p)) =
   map pairOf (edits p) @ lineEdits m (length pre) lines"
proof (induction lines arbitrary: pre p)
  case Nil
  show ?case by simp
next
  case (Cons t rest)
  let ?c = "spec_contentLength t"
  let ?cs = "pre @ map spec_contentLength (t # rest)"
  have cs: "?cs = (pre @ [?c]) @ map spec_contentLength rest" by simp
  have idx: "length pre < length ?cs" "?cs ! length pre = ?c" by simp_all
  have len: "Suc (length pre) = length (pre @ [?c])" by simp
  note IH = Cons.IH [of "pre @ [?c]", folded len cs]
  show ?case
    apply (subst planEdits.simps)
    apply (simp only: idx if_True Let_def clamp_eq)
    apply (subst IH)
    apply (simp add: pairOf_def)
    done
qed

lemma planEdits_desired:
  "desiredLeadingByLine (planEdits m (pre @ map spec_contentLength lines) (length pre) lines p) l =
   (if length pre \<le> l \<and> l < length pre + length lines
    then Some (m - spec_contentLength (lines ! (l - length pre)))
    else desiredLeadingByLine p l)"
proof (induction lines arbitrary: pre p)
  case Nil
  show ?case by auto
next
  case (Cons t rest)
  let ?c = "spec_contentLength t"
  let ?cs = "pre @ map spec_contentLength (t # rest)"
  have cs: "?cs = (pre @ [?c]) @ map spec_contentLength rest" by simp
  have idx: "length pre < length ?cs" "?cs ! length pre = ?c" by simp_all
  have len: "Suc (length pre) = length (pre @ [?c])" by simp
  note IH = Cons.IH [of "pre @ [?c]", folded len cs]
  show ?case
    apply (subst planEdits.simps)
    apply (simp only: idx if_True Let_def clamp_eq)
    apply (subst IH)
    apply (auto simp: nth_Cons' Suc_diff_le less_Suc_eq_le)
    done
qed

lemma computePlan_eq:
  "computePlan doc =
     (maxContentLenOf doc,
      planEdits (maxContentLenOf doc) (map spec_contentLength doc) 0 doc emptyPlan)"
  by (simp add: computePlan_def scanContents_eq maxContentLenOf_def)

lemma computePlan_edits:
  "map pairOf (edits (snd (computePlan doc))) = computeEdits doc"
  using planEdits_edits [where m = "maxContentLenOf doc" and pre = "[]" and lines = doc
      and p = emptyPlan]
  by (simp add: computePlan_eq computeEdits_eq emptyPlan_def)

lemma computePlan_desired:
  "desiredLeadingByLine (snd (computePlan doc)) l =
     (if l < length doc then Some (maxContentLenOf doc - spec_contentLength (doc ! l)) else None)"
  using planEdits_desired [where m = "maxContentLenOf doc" and pre = "[]" and lines = doc
      and p = emptyPlan and l = l]
  by (simp add: computePlan_eq emptyPlan_def)

section \<open>The document after a pass\<close>

lemma hostEdit_computeEdits:
  "hostEdit (computeEdits doc) doc = map (alignLine (maxContentLenOf doc)) doc"
  using hostEdit_lineEdits [where pre = "[]" and lines = doc and m = "maxContentLenOf doc"]
  by (simp add: computeEdits_eq)

lemma no_edits_aligned:
  "computeEdits doc = [] \<Longrightarrow> map (alignLine (maxContentLenOf doc)) doc = doc"
  using hostEdit_computeEdits [of doc] by (simp add: hostEdit_Nil)

lemma maxContentLenOf_aligned:
  "maxContentLenOf (map (alignLine m) doc) = maxContentLenOf doc"
  by (simp add: maxContentLenOf_def comp_def contentLength_alignLine)

lemma computeEdits_aligned:
  "computeEdits (map (alignLine (maxContentLenOf doc)) doc) = []"
  by (simp add: computeEdits_eq lineEdits_Nil_iff maxContentLenOf_aligned
      leadingLength_alignLine contentLength_alignLine)

lemma aligned_invariant:
  assumes "t \<in> set (map (alignLine (maxContentLenOf doc)) doc)"
  shows "leadingLength t + spec_contentLength t =
         spec_maxContentLength (map (alignLine (maxContentLenOf doc)) doc)"
proof -
  let ?doc' = "map (alignLine (maxContentLenOf doc)) doc"
  obtain u where u: "u \<in> set doc" "t = alignLine (maxContentLenOf doc) u"
    using assms by auto
  have ne: "?doc' \<noteq> []" using assms by auto
  have "spec_maxContentLength ?doc' = maxContentLenOf doc"
    using maxContentLenOf_spec [OF ne] by (simp add: maxContentLenOf_aligned)
  moreover have "spec_contentLength u \<le> maxContentLenOf doc"
    using u(1) by (rule contentLength_le_max)
  ultimately show ?thesis
    by (simp add: u(2) leadingLength_alignLine contentLength_alignLine)
qed

lemma runAlignment_rerun_doc:
  assumes "\<not> docIsClosed h" "editorFound h" "editReply h = Resolves True"
  shows "snd (runAlignment_rerun h uri st doc) = map (alignLine (maxContentLenOf doc)) doc"
proof (cases "computeEdits doc = []")
  case True
  then show ?thesis using assms
    by (simp add: runAlignment_rerun_def tryBlock_rerun_def Let_def no_edits_aligned)
next
  case False
  then show ?thesis using assms
    by (simp add: runAlignment_rerun_def tryBlock_rerun_def Let_def hostEdit_computeEdits)
qed

lemma captureOffsets_Some:
  assumes "\<forall>s \<in> set sels. line (selStart s) < length doc \<and> line (selEnd s) < length doc"
  shows "\<exists>offs. captureOffsets doc sels = Some offs \<and> length offs = length sels"
  using assms by (induction sels) (auto simp: lineAt_def Let_def)

lemma restoreSelections_Some:
  assumes "\<forall>s \<in> set sels. line (selStart s) < length newDoc \<and> line (selEnd s) < length newDoc"
      and "length offs = length sels"
  shows "\<exists>ns. restoreSelections d newDoc sels offs = Some ns"
  using assms
proof (induction sels arbitrary: offs)
  case Nil
  show ?case by simp
next
  case (Cons s rest)
  then obtain off offs' where offs: "offs = off # offs'" by (cases offs) auto
  then have "\<exists>ns. restoreSelections d newDoc rest offs' = Some ns"
    using Cons by auto
  then show ?case using Cons.prems(1) by (auto simp: offs lineAt_def Let_def)
qed

lemma edits_Nil_iff: "edits (snd (computePlan doc)) = [] \<longleftrightarrow> computeEdits doc = []"
  using computePlan_edits [of doc] by (metis map_is_Nil_conv)

lemma runAlignment_cursor_doc:
  assumes "\<not> docIsClosed h" "editorFound h" "editReply h = Resolves True"
      and "\<forall>s \<in> set sels. line (selStart s) < length doc \<and> line (selEnd s) < length doc"
  shows "fst (snd (runAlignment_cursor h uri sels st doc)) =
         map (alignLine (maxContentLenOf doc)) doc"
proof (cases "computeEdits doc = []")
  case True
  then have "edits (snd (computePlan doc)) = []" by (simp add: edits_Nil_iff)
  then show ?thesis using assms True
    by (simp add: runAlignment_cursor_def tryBlock_cursor_def Let_def case_prod_beta
        no_edits_aligned)
next
  case False
  then have ne: "edits (snd (computePlan doc)) \<noteq> []" by (simp add: edits_Nil_iff)
  let ?new = "map (alignLine (maxContentLenOf doc)) doc"
  have new: "hostEdit (map (\<lambda>e. (replaceRange e, newText e)) (edits (snd (computePlan doc)))) doc
             = ?new"
    using computePlan_edits [of doc] by (simp add: pairOf_def [abs_def] hostEdit_computeEdits)
  obtain offs where offs: "captureOffsets doc sels = Some offs" "length offs = length sels"
    using captureOffsets_Some [OF assms(4)] by blast
  have "\<forall>s \<in> set sels. line (selStart s) < length ?new \<and> line (selEnd s) < length ?new"
    using assms(4) by simp
  then obtain ns where
    ns: "restoreSelections (desiredLeadingByLine (snd (computePlan doc))) ?new sels offs = Some ns"
    using restoreSelections_Some [OF _ offs(2)] by blast
  show ?thesis using assms(1-3) ne
    by (simp add: runAlignment_cursor_def tryBlock_cursor_def Let_def case_prod_beta
        offs new ns)
qed

section \<open>The align and unalign commands\<close>

lemma hostEdit_padInserts:
  "hostEdit (padInserts m (length pre) lines) (pre @ lines) = pre @ map (padLine m) lines"
proof (induction lines arbitrary: pre)
  case Nil
  show ?case by (simp add: hostEdit_Nil)
next
  case (Cons t rest)
  have step: "hostEdit (padInserts m (Suc (length pre)) rest) ((pre @ [padLine m t]) @ rest)
              = (pre @ [padLine m t]) @ map (padLine m) rest"
    using Cons.IH [of "pre @ [padLine m t]"] by simp
  show ?case
  proof (cases "int m - int (length t) > 0")
    case True
    then have "nat (int m - int (length t)) = m - length t" by simp
    then show ?thesis using step True
      by (simp add: hostEdit_Cons replaceInDocument_at padLine_def Let_def)
  next
    case False
    then have "m - length t = 0" by simp
    then show ?thesis using step False
      by (simp add: padLine_def repeatSpace_def Let_def)
  qed
qed

lemma hostEdit_unalignDeletes:
  "hostEdit (unalignDeletes (length pre) lines) (pre @ lines) = pre @ map unalignLine lines"
proof (induction lines arbitrary: pre)
  case Nil
  show ?case by (simp add: hostEdit_Nil)
next
  case (Cons t rest)
  have step: "hostEdit (unalignDeletes (Suc (length pre)) rest) ((pre @ [unalignLine t]) @ rest)
              = (pre @ [unalignLine t]) @ map unalignLine rest"
    using Cons.IH [of "pre @ [unalignLine t]"] by simp
  show ?case
  proof (cases "length t > 0 \<and> t ! 0 = SPACE")
    case True
    then show ?thesis using step
      by (simp add: hostEdit_Cons replaceInDocument_at unalignLine_def)
  next
    case False
    then show ?thesis using step
      by (auto simp: unalignLine_def)
  qed
qed

lemma maxLineLength_fold: "maxLineLength lines m = fold max (map length lines) m"
proof (induction lines arbitrary: m)
  case Nil
  show ?case by simp
next
  case (Cons t rest)
  have "(if length t > m then length t else m) = max (length t) m"
    by (simp add: max_def)
  then show ?case using Cons.IH by (simp add: Let_def)
qed

lemma maxLineLength_Max: "maxLineLength lines m = Max (insert m (length ` set lines))"
  by (simp add: maxLineLength_fold fold_max_Max)

lemma maxLineLength_ge: "t \<in> set lines \<Longrightarrow> length t \<le> maxLineLength lines m"
  by (simp add: maxLineLength_Max)

lemma maxLineLength_le: "m \<le> L \<Longrightarrow> \<forall>t \<in> set lines. length t \<le> L \<Longrightarrow> maxLineLength lines m \<le> L"
  by (simp add: maxLineLength_Max)

lemma needsPadding_iff: "needsPadding L lines \<longleftrightarrow> (\<exists>t \<in> set lines. length t < L)"
  by (induction lines) (auto simp: Let_def)

text \<open>
  The listener leaves a document alone whose lines all have the same length.
\<close>

lemma changeListener_uniform:
  assumes "\<forall>t \<in> set doc. length t = L"
  shows "snd (changeListener h b doc) = doc"
proof -
  have "maxLineLength doc 0 \<le> L"
    using assms by (intro maxLineLength_le) simp_all
  then have "\<not> needsPadding (maxLineLength doc 0) doc"
    using assms by (auto simp: needsPadding_iff)
  then show ?thesis by (simp add: changeListener_def Let_def)
qed

lemma editAndNotify_uniform:
  assumes "editReply h = Resolves True"
      and "\<forall>t \<in> set (hostEdit batch doc). length t = L"
  shows "editAndNotify h batch doc = hostEdit batch doc"
proof (cases "batch = []")
  case True
  then show ?thesis using assms(1) by (simp add: editAndNotify_def hostEdit_Nil)
next
  case False
  then show ?thesis
    using assms(1) changeListener_uniform [OF assms(2), of h False]
    by (simp add: editAndNotify_def)
qed

lemma length_padLine: "length t \<le> m \<Longrightarrow> length (padLine m t) = m"
  by (simp add: padLine_def repeatSpace_def)

lemma padded_uniform:
  "\<forall>t \<in> set (map (padLine (maxLineLength doc 0)) doc). length t = maxLineLength doc 0"
  by (auto simp: length_padLine maxLineLength_ge)

lemma alignDocument_Some:
  assumes "editReply h = Resolves True"
  shows "alignDocument h (Some doc) = Some (map (padLine (maxLineLength doc 0)) doc)"
proof -
  let ?M = "maxLineLength doc 0"
  have batch: "hostEdit (padInserts ?M 0 doc) doc = map (padLine ?M) doc"
    using hostEdit_padInserts [where pre = "[]" and lines = doc and m = ?M] by simp
  have "\<forall>t \<in> set (hostEdit (padInserts ?M 0 doc) doc). length t = ?M"
    using padded_uniform [of doc] by (simp only: batch)
  then have "editAndNotify h (padInserts ?M 0 doc) doc = hostEdit (padInserts ?M 0 doc) doc"
    using assms by (intro editAndNotify_uniform)
  then show ?thesis by (simp add: alignDocument_def batch)
qed

text \<open>
  One run of unalign on a document of equal-length lines. When every line begins with a
  space, every line loses it and the listener has nothing to pad. When some line does
  not begin with a space, the lines that lost their space are the shorter ones and the
  listener pads them back: the command changes nothing.
\<close>

lemma unalignDeletes_document:
  "hostEdit (unalignDeletes 0 d) d = map unalignLine d"
  using hostEdit_unalignDeletes [where pre = "[]" and lines = d] by simp


lemma unalignDeletes_Nil_iff:
  "unalignDeletes i d = [] \<longleftrightarrow> (\<forall>t \<in> set d. \<not> (length t > 0 \<and> t ! 0 = SPACE))"
  by (induction d arbitrary: i) auto

lemma padLine_unalignLine:
  assumes "length t = L"
  shows "padLine L (unalignLine t) = t"
proof (cases "length t > 0 \<and> t ! 0 = SPACE")
  case True
  then obtain cs where t: "t = SPACE # cs" by (cases t) auto
  then show ?thesis using assms by (auto simp: padLine_def unalignLine_def repeatSpace_def)
next
  case False
  then show ?thesis using assms by (auto simp: padLine_def unalignLine_def repeatSpace_def)
qed

lemma unalignDocument_padded_back:
  assumes "editorFound h" "editReply h = Resolves True"
      and "\<forall>t \<in> set d. length t = L"
      and "u \<in> set d" "\<not> (length u > 0 \<and> u ! 0 = SPACE)"
  shows "unalignDocument h (Some d) = Some d"
proof (cases "unalignDeletes 0 d = []")
  case True
  then show ?thesis using assms(2) by (simp add: unalignDocument_def editAndNotify_def)
next
  case False
  let ?d' = "map unalignLine d"
  have le: "\<forall>t \<in> set ?d'. length t \<le> L"
    using assms(3) by (auto simp: unalignLine_def)
  have "unalignLine u \<in> set ?d'" using assms(4) by simp
  moreover have "unalignLine u = u" using assms(5) by (auto simp: unalignLine_def)
  ultimately have "u \<in> set ?d'" by simp
  then have "length u \<le> maxLineLength ?d' 0" by (rule maxLineLength_ge)
  moreover have "maxLineLength ?d' 0 \<le> L" using le by (intro maxLineLength_le) simp_all
  ultimately have M: "maxLineLength ?d' 0 = L" using assms(3,4) by auto
  obtain v where v: "v \<in> set d" "length v > 0 \<and> v ! 0 = SPACE"
    using False by (auto simp: unalignDeletes_Nil_iff)
  then have "length (unalignLine v) < L" using assms(3) by (auto simp: unalignLine_def)
  then have need: "needsPadding L ?d'" using v(1) by (auto simp: needsPadding_iff)
  have "hostEdit (padInserts L 0 ?d') ?d' = map (padLine L) ?d'"
    using hostEdit_padInserts [where pre = "[]" and lines = ?d' and m = L] by simp
  also have "\<dots> = map (\<lambda>t. padLine L (unalignLine t)) d" by (simp add: comp_def)
  also have "\<dots> = d" using assms(3) by (intro map_idI) (simp add: padLine_unalignLine)
  finally have padded: "hostEdit (padInserts L 0 ?d') ?d' = d" .
  have "snd (changeListener h False ?d') = d"
    using assms(1,2) need by (simp add: changeListener_def Let_def M padded)
  then show ?thesis using False assms(2)
    by (simp add: unalignDocument_def editAndNotify_def unalignDeletes_document)
qed





section \<open>The right-alignment claims\<close>

lemma readyHost_simps:
  "\<not> docIsClosed readyHost" "editorFound readyHost" "editReply readyHost = Resolves True"
  "selectionsReject readyHost = None"
  by (simp_all add: readyHost_def)

lemma scenarioSelections_inside:
  "\<forall>s \<in> set scenarioSelections.
     line (selStart s) < length scenarioDocument \<and> line (selEnd s) < length scenarioDocument"
  by (simp add: scenarioSelections_def scenarioDocument_def selStart_def selEnd_def isBefore_def)

lemma alignmentTimer_padding_doc:
  assumes "\<not> docIsClosed h" "editorFound h" "editReply h = Resolves True"
      and "lastMax st uri \<noteq> Some (maxLineLength doc 0)"
      and "maxLineLength doc 0 \<noteq> 0"
  shows "snd (alignmentTimer_padding h uri st doc) = map (padLine (maxLineLength doc 0)) doc"
proof -
  have "maxLineLength doc 0 \<noteq> (case lastMax st uri of Some v \<Rightarrow> v | None \<Rightarrow> 0)"
    using assms(4,5) by (cases "lastMax st uri") auto
  moreover have "hostEdit (padInserts (maxLineLength doc 0) 0 doc) doc
                 = map (padLine (maxLineLength doc 0)) doc"
    using hostEdit_padInserts [where pre = "[]" and lines = doc and m = "maxLineLength doc 0"]
    by simp
  ultimately show ?thesis using assms(1-3)
    by (simp add: alignmentTimer_padding_def tryBlock_padding_def Let_def)
qed

lemma filter_lineEdits:
  "filter (\<lambda>e. startLine (fst e) = i) (lineEdits m j lines) =
     (if j \<le> i \<and> i < j + length lines
      then (if leadingLength (lines ! (i - j)) \<noteq> m - spec_contentLength (lines ! (i - j))
            then [(\<lparr>startLine = i, startCharacter = 0, endLine = i,
                     endCharacter = leadingLength (lines ! (i - j))\<rparr>,
                   repeatSpace (m - spec_contentLength (lines ! (i - j))))]
            else [])
      else [])"
proof (induction lines arbitrary: j)
  case Nil
  show ?case by auto
next
  case (Cons t rest)
  show ?case
  proof (cases "i = j")
    case True
    have "filter (\<lambda>e. startLine (fst e) = i) (lineEdits m (Suc j) rest) = []"
      by (simp only: Cons.IH) (use True in simp)
    then show ?thesis using True by simp
  next
    case False
    then have "(j \<le> i \<and> i < j + length (t # rest)) = (Suc j \<le> i \<and> i < Suc j + length rest)"
      by auto
    moreover have "Suc j \<le> i \<Longrightarrow> (t # rest) ! (i - j) = rest ! (i - Suc j)"
      by (simp add: Suc_diff_le)
    ultimately show ?thesis using False by (auto simp: Cons.IH)
  qed
qed

lemma filter_computeEdits:
  assumes "i < length doc"
  shows "filter (\<lambda>e. startLine (fst e) = i) (computeEdits doc) =
     (if leadingLength (doc ! i) \<noteq> maxContentLenOf doc - spec_contentLength (doc ! i)
      then [(\<lparr>startLine = i, startCharacter = 0, endLine = i,
               endCharacter = leadingLength (doc ! i)\<rparr>,
             repeatSpace (maxContentLenOf doc - spec_contentLength (doc ! i)))]
      else [])"
  using assms by (simp add: computeEdits_eq filter_lineEdits)

text \<open>
  Claim C2. In both right-alignment passes the desired leading width \<open>w\<close> of line \<open>i\<close> is
  the maximum content length over all lines minus the content length of line \<open>i\<close>,
  clamped below at 0, where content length is line length minus leading-whitespace width.
  In the cursor-preserving pass \<open>w\<close> is the entry of \<open>desiredLeadingByLine\<close>; in the
  rerunning pass it is \<open>desiredLeading\<close> at iteration \<open>i\<close> of the second loop. In both,
  the edit list holds for line \<open>i\<close> exactly the replacement of its leading white space
  by \<open>w\<close> spaces when its width differs from \<open>w\<close> and nothing otherwise, and after a
  completed rerunning pass the line's leading width is \<open>w\<close>.
\<close>

theorem desired_leading_width:
  assumes "i < length doc"
      and "w = nat (max 0 (int (spec_maxContentLength doc) - int (spec_contentLength (doc ! i))))"
      and "old = spec_leadingWidth (doc ! i)"
  shows "desiredLeadingByLine (snd (computePlan doc)) i = Some w
       \<and> map (\<lambda>e. (replaceRange e, newText e))
           (filter (\<lambda>e. startLine (replaceRange e) = i) (edits (snd (computePlan doc))))
           = (if old \<noteq> w
              then [(\<lparr>startLine = i, startCharacter = 0, endLine = i, endCharacter = old\<rparr>,
                     repeatSpace w)]
              else [])
       \<and> desiredLeadingOf (fst (scanLines doc (0, []))) (snd (scanLines doc (0, [])) ! i) = w
       \<and> filter (\<lambda>e. startLine (fst e) = i) (computeEdits doc)
           = (if old \<noteq> w
              then [(\<lparr>startLine = i, startCharacter = 0, endLine = i, endCharacter = old\<rparr>,
                     repeatSpace w)]
              else [])
       \<and> (\<not> docIsClosed h \<and> editorFound h \<and> editReply h = Resolves True \<longrightarrow>
            spec_leadingWidth (snd (runAlignment_rerun h uri st doc) ! i) = w)"
proof -
  have ne: "doc \<noteq> []" using assms(1) by auto
  have m: "maxContentLenOf doc = spec_maxContentLength doc"
    using ne by (rule maxContentLenOf_spec)
  have w: "w = maxContentLenOf doc - spec_contentLength (doc ! i)"
    by (simp only: assms(2) clamp_eq m)
  have old: "old = leadingLength (doc ! i)"
    by (simp only: assms(3) spec_leadingWidth_eq)
  have c1: "desiredLeadingByLine (snd (computePlan doc)) i = Some w"
    using assms(1) by (simp add: computePlan_desired w)
  have c3: "desiredLeadingOf (fst (scanLines doc (0, []))) (snd (scanLines doc (0, [])) ! i) = w"
    using assms(1) by (simp add: scanLines_eq desiredLeadingOf_eq maxContentLenOf_def w)
  have c4: "filter (\<lambda>e. startLine (fst e) = i) (computeEdits doc)
           = (if old \<noteq> w
              then [(\<lparr>startLine = i, startCharacter = 0, endLine = i, endCharacter = old\<rparr>,
                     repeatSpace w)]
              else [])"
    using filter_computeEdits [OF assms(1)] by (simp only: w old)
  have "map pairOf (filter (\<lambda>e. startLine (replaceRange e) = i) (edits (snd (computePlan doc))))
        = filter (\<lambda>e. startLine (fst e) = i) (map pairOf (edits (snd (computePlan doc))))"
    by (simp add: filter_map comp_def pairOf_def)
  also have "\<dots> = filter (\<lambda>e. startLine (fst e) = i) (computeEdits doc)"
    by (simp only: computePlan_edits)
  also have "\<dots> = (if old \<noteq> w
              then [(\<lparr>startLine = i, startCharacter = 0, endLine = i, endCharacter = old\<rparr>,
                     repeatSpace w)]
              else [])"
    by (rule c4)
  finally have c2: "map (\<lambda>e. (replaceRange e, newText e))
           (filter (\<lambda>e. startLine (replaceRange e) = i) (edits (snd (computePlan doc))))
           = (if old \<noteq> w
              then [(\<lparr>startLine = i, startCharacter = 0, endLine = i, endCharacter = old\<rparr>,
                     repeatSpace w)]
              else [])"
    by (simp only: pairOf_def [abs_def])
  have c5: "spec_leadingWidth (snd (runAlignment_rerun h uri st doc) ! i) = w"
    if "\<not> docIsClosed h \<and> editorFound h \<and> editReply h = Resolves True"
    using that assms(1)
    by (simp add: runAlignment_rerun_doc spec_leadingWidth_eq leadingLength_alignLine w)
  show ?thesis using c1 c2 c3 c4 c5 by blast
qed

theorem desired_leading_width_witness:
  "(0::nat) < length scenarioDocument
   \<and> desiredLeadingByLine (snd (computePlan scenarioDocument)) 0 = Some 2
   \<and> desiredLeadingOf (fst (scanLines scenarioDocument (0, [])))
        (snd (scanLines scenarioDocument (0, [])) ! 0) = 2
   \<and> filter (\<lambda>e. startLine (fst e) = 0) (computeEdits scenarioDocument)
       = [(\<lparr>startLine = 0, startCharacter = 0, endLine = 0, endCharacter = 0\<rparr>, repeatSpace 2)]
   \<and> spec_leadingWidth (snd (runAlignment_rerun readyHost ''u'' idleExtension scenarioDocument) ! 0)
       = 2"
proof -
  have len: "(0::nat) < length scenarioDocument" by (simp add: scenarioDocument_def)
  have w: "2 = nat (max 0 (int (spec_maxContentLength scenarioDocument)
                           - int (spec_contentLength (scenarioDocument ! 0))))"
    by code_simp
  have old: "0 = spec_leadingWidth (scenarioDocument ! 0)"
    by code_simp
  have h: "\<not> docIsClosed readyHost \<and> editorFound readyHost \<and> editReply readyHost = Resolves True"
    by (simp add: readyHost_def)
  show ?thesis
    using desired_leading_width [OF len w old, where h = readyHost and uri = "''u''"
        and st = idleExtension] len h
    by simp
qed

text \<open>
  Claim C5. After a pass that completes (the document is open, an editor shows it, the
  batch is applied; for the cursor-preserving pass the selections lie inside the
  document), every line's leading width plus its content length is the maximum content
  length of the resulting document, and the leading width is not negative.
\<close>

theorem right_alignment_invariant:
  assumes "\<not> docIsClosed h" "editorFound h" "editReply h = Resolves True"
      and "\<forall>s \<in> set sels. line (selStart s) < length doc \<and> line (selEnd s) < length doc"
      and "doc1 = fst (snd (runAlignment_cursor h uri sels st doc))"
      and "doc2 = snd (runAlignment_rerun h uri st doc)"
      and "i < length doc"
  shows "length doc1 = length doc
       \<and> leadingLength (doc1 ! i) + spec_contentLength (doc1 ! i) = spec_maxContentLength doc1
       \<and> 0 \<le> leadingLength (doc1 ! i)
       \<and> length doc2 = length doc
       \<and> leadingLength (doc2 ! i) + spec_contentLength (doc2 ! i) = spec_maxContentLength doc2
       \<and> 0 \<le> leadingLength (doc2 ! i)"
proof -
  let ?new = "map (alignLine (maxContentLenOf doc)) doc"
  have d1: "doc1 = ?new" using assms(1-5) by (simp add: runAlignment_cursor_doc)
  have d2: "doc2 = ?new" using assms(1-3,6) by (simp add: runAlignment_rerun_doc)
  have "?new ! i \<in> set ?new" using assms(7) by (intro nth_mem) simp
  then have "leadingLength (?new ! i) + spec_contentLength (?new ! i) = spec_maxContentLength ?new"
    by (rule aligned_invariant)
  then show ?thesis by (simp add: d1 d2)
qed

theorem right_alignment_invariant_witness:
  "length (snd (runAlignment_rerun readyHost ''u'' idleExtension scenarioDocument)) = 3
   \<and> leadingLength (snd (runAlignment_rerun readyHost ''u'' idleExtension scenarioDocument) ! 0)
       + spec_contentLength (snd (runAlignment_rerun readyHost ''u'' idleExtension scenarioDocument) ! 0)
       = spec_maxContentLength (snd (runAlignment_rerun readyHost ''u'' idleExtension scenarioDocument))
   \<and> leadingLength (fst (snd (runAlignment_cursor readyHost ''u'' scenarioSelections idleExtension
         scenarioDocument)) ! 0) = 2"
proof -
  have len: "(0::nat) < length scenarioDocument" by (simp add: scenarioDocument_def)
  note inv = right_alignment_invariant [OF readyHost_simps(1-3) scenarioSelections_inside
      refl refl len, of "''u''" idleExtension]
  have "leadingLength (fst (snd (runAlignment_cursor readyHost ''u'' scenarioSelections idleExtension
         scenarioDocument)) ! 0) = 2"
    by code_simp
  then show ?thesis using inv by (simp add: scenarioDocument_def)
qed

text \<open>
  Claim C4. After a completed pass the recalculation finds no edit: the edit list of
  either right-alignment pass, computed on the resulting document, is empty, and a second
  pass (whatever the host does then) leaves the document as it is.
\<close>

theorem second_pass_no_edits:
  assumes "\<not> docIsClosed h" "editorFound h" "editReply h = Resolves True"
      and "\<forall>s \<in> set sels. line (selStart s) < length doc \<and> line (selEnd s) < length doc"
      and "doc1 = fst (snd (runAlignment_cursor h uri sels st doc))"
      and "doc2 = snd (runAlignment_rerun h uri st doc)"
  shows "edits (snd (computePlan doc1)) = []
       \<and> computeEdits doc2 = []
       \<and> fst (snd (runAlignment_cursor h' uri sels' st' doc1)) = doc1
       \<and> snd (runAlignment_rerun h' uri st' doc2) = doc2"
proof -
  let ?new = "map (alignLine (maxContentLenOf doc)) doc"
  have d1: "doc1 = ?new" using assms(1-5) by (simp add: runAlignment_cursor_doc)
  have d2: "doc2 = ?new" using assms(1-3,6) by (simp add: runAlignment_rerun_doc)
  have none: "computeEdits ?new = []" by (rule computeEdits_aligned)
  then have none': "edits (snd (computePlan ?new)) = []" by (simp add: edits_Nil_iff)
  have "fst (snd (runAlignment_cursor h' uri sels' st' ?new)) = ?new"
    using none' by (simp add: runAlignment_cursor_def tryBlock_cursor_def Let_def case_prod_beta)
  moreover have "snd (runAlignment_rerun h' uri st' ?new) = ?new"
    using none by (simp add: runAlignment_rerun_def tryBlock_rerun_def Let_def)
  ultimately show ?thesis using none none' by (simp add: d1 d2)
qed

theorem second_pass_no_edits_witness:
  "computeEdits scenarioDocument \<noteq> []
   \<and> edits (snd (computePlan (fst (snd (runAlignment_cursor readyHost ''u'' scenarioSelections
        idleExtension scenarioDocument))))) = []
   \<and> computeEdits (snd (runAlignment_rerun readyHost ''u'' idleExtension scenarioDocument)) = []"
proof -
  note idem = second_pass_no_edits [OF readyHost_simps(1-3) scenarioSelections_inside refl refl,
      of "''u''" idleExtension]
  have "computeEdits scenarioDocument \<noteq> []" by code_simp
  then show ?thesis using idem by simp
qed

text \<open>
  Claim C9. On the document \<open>["a", "bb", "ccc"]\<close> one completed pass gives
  \<open>["  a", " bb", "ccc"]\<close>: in both right-alignment passes (the cursor-preserving one
  with its selections inside the document), in the pass that pads to the longest line
  as long as the last maximum it kept for the document is not already 3, and in the
  align command.
\<close>

theorem scenario_a_bb_ccc:
  assumes "\<not> docIsClosed h" "editorFound h" "editReply h = Resolves True"
  shows "((\<forall>s \<in> set sels. line (selStart s) < 3 \<and> line (selEnd s) < 3) \<longrightarrow>
            fst (snd (runAlignment_cursor h uri sels st [js ''a'', js ''bb'', js ''ccc'']))
              = [js ''  a'', js '' bb'', js ''ccc''])
       \<and> snd (runAlignment_rerun h uri st [js ''a'', js ''bb'', js ''ccc''])
           = [js ''  a'', js '' bb'', js ''ccc'']
       \<and> (lastMax st uri \<noteq> Some 3 \<longrightarrow>
            snd (alignmentTimer_padding h uri st [js ''a'', js ''bb'', js ''ccc''])
              = [js ''  a'', js '' bb'', js ''ccc''])
       \<and> alignDocument h (Some [js ''a'', js ''bb'', js ''ccc''])
           = Some [js ''  a'', js '' bb'', js ''ccc'']"
proof -
  let ?doc = "[js ''a'', js ''bb'', js ''ccc'']"
  have a: "map (alignLine (maxContentLenOf ?doc)) ?doc = [js ''  a'', js '' bb'', js ''ccc'']"
    by code_simp
  have m: "maxLineLength ?doc 0 = 3" by code_simp
  have p: "map (padLine 3) ?doc = [js ''  a'', js '' bb'', js ''ccc'']"
    by code_simp
  have c1: "fst (snd (runAlignment_cursor h uri sels st ?doc)) = map (alignLine (maxContentLenOf ?doc)) ?doc"
    if inside: "\<forall>s \<in> set sels. line (selStart s) < 3 \<and> line (selEnd s) < 3"
  proof -
    have sel: "\<forall>s \<in> set sels. line (selStart s) < length ?doc \<and> line (selEnd s) < length ?doc"
      using inside by (simp add: eval_nat_numeral)
    show ?thesis by (rule runAlignment_cursor_doc [OF assms(1-3) sel])
  qed
  have c2: "snd (runAlignment_rerun h uri st ?doc) = map (alignLine (maxContentLenOf ?doc)) ?doc"
    using assms(1-3) by (rule runAlignment_rerun_doc)
  have c3: "snd (alignmentTimer_padding h uri st ?doc) = map (padLine (maxLineLength ?doc 0)) ?doc"
    if last: "lastMax st uri \<noteq> Some 3"
  proof -
    have l5: "lastMax st uri \<noteq> Some (maxLineLength ?doc 0)"
      using last by (simp only: m not_False_eq_True)
    have nz: "maxLineLength ?doc 0 \<noteq> 0"
      by (simp only: m)
    show ?thesis by (rule alignmentTimer_padding_doc [OF assms(1-3) l5 nz])
  qed
  have c4: "alignDocument h (Some ?doc) = Some (map (padLine (maxLineLength ?doc 0)) ?doc)"
    using assms(3) by (rule alignDocument_Some)
  show ?thesis using c1 c3 by (simp only: c2 c4 a m p) blast
qed

theorem scenario_a_bb_ccc_witness:
  "fst (snd (runAlignment_cursor readyHost ''u'' scenarioSelections idleExtension
      [js ''a'', js ''bb'', js ''ccc''])) = [js ''  a'', js '' bb'', js ''ccc'']
   \<and> snd (runAlignment_rerun readyHost ''u'' idleExtension [js ''a'', js ''bb'', js ''ccc''])
       = [js ''  a'', js '' bb'', js ''ccc'']
   \<and> snd (alignmentTimer_padding readyHost ''u'' idleExtension [js ''a'', js ''bb'', js ''ccc''])
       = [js ''  a'', js '' bb'', js ''ccc'']"
proof -
  have sel: "\<forall>s \<in> set scenarioSelections. line (selStart s) < 3 \<and> line (selEnd s) < 3"
    by (simp add: scenarioSelections_def selStart_def selEnd_def isBefore_def)
  have lm: "lastMax idleExtension ''u'' \<noteq> Some 3" by (simp add: idleExtension_def)
  show ?thesis
    using scenario_a_bb_ccc [OF readyHost_simps(1-3), of scenarioSelections "''u''" idleExtension]
      sel lm
    by blast
qed

section \<open>Caret preservation\<close>

lemma captureOffsets_nth:
  "captureOffsets doc sels = Some offs \<Longrightarrow> idx < length sels \<Longrightarrow>
   length offs = length sels
   \<and> line (selStart (sels ! idx)) < length doc \<and> line (selEnd (sels ! idx)) < length doc
   \<and> offs ! idx =
       (nat (max 0 (int (character (selStart (sels ! idx)))
                    - int (leadingLength (doc ! line (selStart (sels ! idx)))))),
        nat (max 0 (int (character (selEnd (sels ! idx)))
                    - int (leadingLength (doc ! line (selEnd (sels ! idx)))))))"
proof (induction sels arbitrary: offs idx)
  case Nil
  then show ?case by simp
next
  case (Cons s rest)
  from Cons.prems(1) obtain offs' where
    inside: "line (selStart s) < length doc" "line (selEnd s) < length doc" and
    rest: "captureOffsets doc rest = Some offs'" and
    offs: "offs =
      (nat (max 0 (int (character (selStart s)) - int (leadingLength (doc ! line (selStart s))))),
       nat (max 0 (int (character (selEnd s)) - int (leadingLength (doc ! line (selEnd s))))))
      # offs'"
    by (auto simp: lineAt_def Let_def split: if_splits)
  show ?case
  proof (cases idx)
    case 0
    have "length offs' = length rest"
    proof (cases rest)
      case Nil
      then show ?thesis using rest by simp
    next
      case (Cons r rs)
      then show ?thesis using Cons.IH [OF rest, of 0] by simp
    qed
    then show ?thesis using 0 inside offs by simp
  next
    case (Suc j)
    then have "j < length rest" using Cons.prems(2) by simp
    from Cons.IH [OF rest this] show ?thesis using Suc offs by simp
  qed
qed

lemma restoreSelections_nth:
  "restoreSelections d newDoc sels offs = Some ns \<Longrightarrow> idx < length sels \<Longrightarrow>
   ns ! idx =
     \<lparr>anchor = \<lparr>line = line (selStart (sels ! idx)),
                 character = min (nat (max 0 (int (case d (line (selStart (sels ! idx))) of
                                                      Some v \<Rightarrow> v | None \<Rightarrow> 0)
                                              + int (fst (offs ! idx)))))
                                 (length (newDoc ! line (selStart (sels ! idx))))\<rparr>,
      active = \<lparr>line = line (selEnd (sels ! idx)),
                 character = min (nat (max 0 (int (case d (line (selEnd (sels ! idx))) of
                                                      Some v \<Rightarrow> v | None \<Rightarrow> 0)
                                              + int (snd (offs ! idx)))))
                                 (length (newDoc ! line (selEnd (sels ! idx))))\<rparr>\<rparr>"
proof (induction sels arbitrary: offs ns idx)
  case Nil
  then show ?case by simp
next
  case (Cons s rest)
  from Cons.prems(1) obtain off offsets where offs: "offs = off # offsets"
    by (cases offs) auto
  from Cons.prems(1) obtain ns' where
    rest: "restoreSelections d newDoc rest offsets = Some ns'" and
    ns: "ns =
      \<lparr>anchor = \<lparr>line = line (selStart s),
                  character = min (nat (max 0 (int (case d (line (selStart s)) of
                                                       Some v \<Rightarrow> v | None \<Rightarrow> 0)
                                               + int (fst off))))
                                  (length (newDoc ! line (selStart s)))\<rparr>,
       active = \<lparr>line = line (selEnd s),
                  character = min (nat (max 0 (int (case d (line (selEnd s)) of
                                                       Some v \<Rightarrow> v | None \<Rightarrow> 0)
                                               + int (snd off))))
                                  (length (newDoc ! line (selEnd s)))\<rparr>\<rparr> # ns'"
    by (auto simp: offs lineAt_def Let_def split: if_splits)
  show ?case
  proof (cases idx)
    case 0
    then show ?thesis using ns offs by simp
  next
    case (Suc j)
    then have j: "j < length rest" using Cons.prems(2) by simp
    from Cons.IH [OF rest j] show ?thesis using Suc ns offs by simp
  qed
qed

lemma cursor_assigned:
  assumes "runAlignment_cursor h uri sels st doc = (st', doc', Some newSels)"
  shows "\<exists>offs. captureOffsets doc sels = Some offs
           \<and> restoreSelections (desiredLeadingByLine (snd (computePlan doc))) doc' sels offs
               = Some newSels
           \<and> (editReply h = Resolves True \<longrightarrow> doc' = map (alignLine (maxContentLenOf doc)) doc)"
proof -
  have new: "hostEdit (map (\<lambda>e. (replaceRange e, newText e)) (edits (snd (computePlan doc)))) doc
             = map (alignLine (maxContentLenOf doc)) doc"
    using computePlan_edits [of doc] by (simp add: pairOf_def [abs_def] hostEdit_computeEdits)
  show ?thesis
    using assms
    by (auto simp: runAlignment_cursor_def tryBlock_cursor_def Let_def case_prod_beta new
        split: if_splits option.splits editReply.splits)
qed

text \<open>
  Claim C3. When the pass assigns new selections, each end of selection \<open>idx\<close> is put at
  column \<open>min (w_new + k) newLineLength\<close> of its line: \<open>k\<close> is the end's content offset
  (its character minus the old leading width of its line, floored at 0), \<open>w_new\<close> the
  desired width of the line and \<open>newLineLength\<close> the length of the line in the document
  after the edit. When the batch was applied, \<open>w_new\<close> is the leading width the line has
  then.
\<close>

theorem caret_preservation:
  assumes "runAlignment_cursor h uri sels st doc = (st', doc', Some newSels)"
      and "idx < length sels"
      and "p = selStart (sels ! idx)"
      and "q = selEnd (sels ! idx)"
      and "k_p = nat (max 0 (int (character p) - int (leadingLength (doc ! line p))))"
      and "k_q = nat (max 0 (int (character q) - int (leadingLength (doc ! line q))))"
      and "w_p = nat (max 0 (int (spec_maxContentLength doc) - int (spec_contentLength (doc ! line p))))"
      and "w_q = nat (max 0 (int (spec_maxContentLength doc) - int (spec_contentLength (doc ! line q))))"
  shows "anchor (newSels ! idx) = \<lparr>line = line p, character = min (w_p + k_p) (length (doc' ! line p))\<rparr>
       \<and> active (newSels ! idx) = \<lparr>line = line q, character = min (w_q + k_q) (length (doc' ! line q))\<rparr>
       \<and> (editReply h = Resolves True \<longrightarrow>
            leadingLength (doc' ! line p) = w_p \<and> leadingLength (doc' ! line q) = w_q)"
proof -
  obtain offs where
    cap: "captureOffsets doc sels = Some offs" and
    res: "restoreSelections (desiredLeadingByLine (snd (computePlan doc))) doc' sels offs = Some newSels" and
    app: "editReply h = Resolves True \<longrightarrow> doc' = map (alignLine (maxContentLenOf doc)) doc"
    using cursor_assigned [OF assms(1)] by blast
  note c = captureOffsets_nth [OF cap assms(2), folded assms(3,4)]
  have inside: "line p < length doc" "line q < length doc" using c by simp_all
  then have ne: "doc \<noteq> []" by auto
  have m: "maxContentLenOf doc = spec_maxContentLength doc"
    using ne by (rule maxContentLenOf_spec)
  have dp: "desiredLeadingByLine (snd (computePlan doc)) (line p) = Some w_p"
    using inside(1) by (simp add: computePlan_desired m assms(7))
  have dq: "desiredLeadingByLine (snd (computePlan doc)) (line q) = Some w_q"
    using inside(2) by (simp add: computePlan_desired m assms(8))
  have off: "offs ! idx = (k_p, k_q)" using c by (simp add: assms(5,6))
  note r = restoreSelections_nth [OF res assms(2), folded assms(3,4)]
  have sel: "anchor (newSels ! idx) = \<lparr>line = line p, character = min (w_p + k_p) (length (doc' ! line p))\<rparr>"
    "active (newSels ! idx) = \<lparr>line = line q, character = min (w_q + k_q) (length (doc' ! line q))\<rparr>"
    by (simp_all add: r dp dq off)
  have lead: "leadingLength (doc' ! line p) = w_p \<and> leadingLength (doc' ! line q) = w_q"
    if "editReply h = Resolves True"
  proof -
    have "doc' = map (alignLine (maxContentLenOf doc)) doc" using app that by simp
    then show ?thesis using inside
      by (simp add: leadingLength_alignLine m assms(7,8) clamp_eq)
  qed
  show ?thesis using sel lead by blast
qed

theorem caret_preservation_witness:
  "snd (snd (runAlignment_cursor readyHost ''u'' scenarioSelections idleExtension scenarioDocument))
     = Some [\<lparr>anchor = \<lparr>line = 0, character = 3\<rparr>, active = \<lparr>line = 1, character = 1\<rparr>\<rparr>]
   \<and> anchor ([\<lparr>anchor = \<lparr>line = 0, character = 3\<rparr>, active = \<lparr>line = 1, character = 1\<rparr>\<rparr>] ! 0)
     = \<lparr>line = 0, character = min (2 + 1) (length (fst (snd (runAlignment_cursor readyHost ''u''
          scenarioSelections idleExtension scenarioDocument)) ! 0))\<rparr>
   \<and> active ([\<lparr>anchor = \<lparr>line = 0, character = 3\<rparr>, active = \<lparr>line = 1, character = 1\<rparr>\<rparr>] ! 0)
     = \<lparr>line = 1, character = min (1 + 0) (length (fst (snd (runAlignment_cursor readyHost ''u''
          scenarioSelections idleExtension scenarioDocument)) ! 1))\<rparr>"
proof -
  let ?r = "runAlignment_cursor readyHost ''u'' scenarioSelections idleExtension scenarioDocument"
  let ?S = "[\<lparr>anchor = \<lparr>line = 0, character = 3\<rparr>, active = \<lparr>line = 1, character = 1\<rparr>\<rparr>]"
  let ?p = "\<lparr>line = 0, character = 1\<rparr>"
  let ?q = "\<lparr>line = 1, character = 0\<rparr>"
  have sel: "snd (snd ?r) = Some ?S" by code_simp
  have run: "?r = (fst ?r, fst (snd ?r), Some ?S)"
    using sel by (metis prod.collapse)
  have idx: "(0::nat) < length scenarioSelections" by (simp add: scenarioSelections_def)
  have p: "?p = selStart (scenarioSelections ! 0)" by code_simp
  have q: "?q = selEnd (scenarioSelections ! 0)" by code_simp
  have kp: "1 = nat (max 0 (int (character ?p) - int (leadingLength (scenarioDocument ! line ?p))))"
    by code_simp
  have kq: "0 = nat (max 0 (int (character ?q) - int (leadingLength (scenarioDocument ! line ?q))))"
    by code_simp
  have wp: "2 = nat (max 0 (int (spec_maxContentLength scenarioDocument)
                            - int (spec_contentLength (scenarioDocument ! line ?p))))"
    by code_simp
  have wq: "1 = nat (max 0 (int (spec_maxContentLength scenarioDocument)
                            - int (spec_contentLength (scenarioDocument ! line ?q))))"
    by code_simp
  show ?thesis
    using caret_preservation [OF run idx p q kp kq wp wq] sel by simp
qed

section \<open>The busy flag\<close>

lemma rerun_flag_cleared:
  "\<not> docIsClosed h \<Longrightarrow> editorFound h \<Longrightarrow>
   \<not> isApplyingEdits (fst (runAlignment_rerun h uri st doc))"
  by (simp add: runAlignment_rerun_def Let_def case_prod_beta)

lemma rerun_flag_kept:
  "\<not> isApplyingEdits st \<Longrightarrow> \<not> isApplyingEdits (fst (runAlignment_rerun h uri st doc))"
  by (simp add: runAlignment_rerun_def Let_def case_prod_beta)

lemma padding_flag_cleared:
  "\<not> docIsClosed h \<Longrightarrow> editorFound h \<Longrightarrow>
   \<not> isApplyingEdits (fst (alignmentTimer_padding h uri st doc))"
  by (simp add: alignmentTimer_padding_def Let_def case_prod_beta)

lemma padding_flag_kept:
  "\<not> isApplyingEdits st \<Longrightarrow> \<not> isApplyingEdits (fst (alignmentTimer_padding h uri st doc))"
  by (simp add: alignmentTimer_padding_def Let_def case_prod_beta)

lemma cursor_flag_cleared:
  "\<not> docIsClosed h \<Longrightarrow> editorFound h \<Longrightarrow>
   \<not> isApplyingEdits (fst (runAlignment_cursor h uri sels st doc))"
  by (simp add: runAlignment_cursor_def Let_def case_prod_beta)

lemma cursor_flag_kept:
  "\<not> isApplyingEdits st \<Longrightarrow> \<not> isApplyingEdits (fst (runAlignment_cursor h uri sels st doc))"
  by (simp add: runAlignment_cursor_def Let_def case_prod_beta)

lemma rerun_error_logged:
  assumes "\<not> docIsClosed h" "editorFound h" "editReply h = Rejects err" "computeEdits doc \<noteq> []"
  shows "channel (fst (runAlignment_rerun h uri st doc)) = channel st @ [ErrorAligning err]
       \<and> snd (runAlignment_rerun h uri st doc) = doc"
  using assms by (simp add: runAlignment_rerun_def tryBlock_rerun_def Let_def)

lemma padding_error_logged:
  assumes "\<not> docIsClosed h" "editorFound h" "editReply h = Rejects err"
      and "maxLineLength doc 0 \<noteq> (case lastMax st uri of Some v \<Rightarrow> v | None \<Rightarrow> 0)"
  shows "channel (fst (alignmentTimer_padding h uri st doc)) = channel st @ [ErrorDuringPadding err]
       \<and> snd (alignmentTimer_padding h uri st doc) = doc"
  using assms by (simp add: alignmentTimer_padding_def tryBlock_padding_def Let_def)

text \<open>
  Claim C8. A pass that reaches its \<^verbatim>\<open>try\<close> block (the document is open and an
  editor shows it) ends with the busy flag cleared, whatever the host does, in all three
  passes; a pass entered with the flag clear never leaves it set; and when the edit is
  rejected with an error, the error is caught and logged (one line appended to the
  channel).
\<close>

theorem busy_flag_released:
  "(\<not> docIsClosed h \<and> editorFound h \<longrightarrow>
      \<not> isApplyingEdits (fst (runAlignment_rerun h uri st doc)) \<and>
      \<not> isApplyingEdits (fst (alignmentTimer_padding h uri st doc)) \<and>
      \<not> isApplyingEdits (fst (runAlignment_cursor h uri sels st doc)))
   \<and> (\<not> isApplyingEdits st \<longrightarrow>
      \<not> isApplyingEdits (fst (runAlignment_rerun h uri st doc)) \<and>
      \<not> isApplyingEdits (fst (alignmentTimer_padding h uri st doc)) \<and>
      \<not> isApplyingEdits (fst (runAlignment_cursor h uri sels st doc)))
   \<and> (\<not> docIsClosed h \<and> editorFound h \<and> editReply h = Rejects err \<and> computeEdits doc \<noteq> [] \<longrightarrow>
      channel (fst (runAlignment_rerun h uri st doc)) = channel st @ [ErrorAligning err])
   \<and> (\<not> docIsClosed h \<and> editorFound h \<and> editReply h = Rejects err \<and>
      maxLineLength doc 0 \<noteq> (case lastMax st uri of Some v \<Rightarrow> v | None \<Rightarrow> 0) \<longrightarrow>
      channel (fst (alignmentTimer_padding h uri st doc)) = channel st @ [ErrorDuringPadding err])"
  using rerun_flag_cleared [of h uri st doc] rerun_flag_kept [of st h uri doc]
    padding_flag_cleared [of h uri st doc] padding_flag_kept [of st h uri doc]
    cursor_flag_cleared [of h uri sels st doc] cursor_flag_kept [of st h uri sels doc]
    rerun_error_logged [of h err doc uri st] padding_error_logged [of h err doc st uri]
  by blast

theorem busy_flag_released_witness:
  "\<not> isApplyingEdits (fst (runAlignment_rerun rejectingHost ''u''
        (idleExtension\<lparr>isApplyingEdits := True\<rparr>) scenarioDocument))
   \<and> channel (fst (runAlignment_rerun rejectingHost ''u'' idleExtension scenarioDocument))
       = channel idleExtension @ [ErrorAligning ''editor closed'']
   \<and> \<not> isApplyingEdits (fst (alignmentTimer_padding rejectingHost ''u'' idleExtension scenarioDocument))
   \<and> channel (fst (alignmentTimer_padding rejectingHost ''u'' idleExtension scenarioDocument))
       = channel idleExtension @ [ErrorDuringPadding ''editor closed'']"
proof -
  have h: "\<not> docIsClosed rejectingHost" "editorFound rejectingHost"
    "editReply rejectingHost = Rejects ''editor closed''"
    by (simp_all add: rejectingHost_def)
  have e: "computeEdits scenarioDocument \<noteq> []" by code_simp
  have m: "maxLineLength scenarioDocument 0 \<noteq>
           (case lastMax idleExtension ''u'' of Some v \<Rightarrow> v | None \<Rightarrow> 0)"
    by code_simp
  show ?thesis
    using h e m
      busy_flag_released [of rejectingHost "''u''" "idleExtension\<lparr>isApplyingEdits := True\<rparr>"
        scenarioDocument "[]" "''editor closed''"]
      busy_flag_released [of rejectingHost "''u''" idleExtension
        scenarioDocument "[]" "''editor closed''"]
    by blast
qed

text \<open>
  The callback of \<^verbatim>\<open>extension.ts\<close> follows the other policy: it pads every line to the
  longest line's length, leading white space counted. On \<open>["  a", "bb"]\<close> it leaves the
  first line and pads the second, where the right-alignment passes remove a space from
  the first.
\<close>

lemma padding_pass_is_another_policy:
  "snd (alignmentTimer_padding readyHost ''u'' idleExtension [js ''  a'', js ''bb''])
     = [js ''  a'', js '' bb'']
   \<and> snd (runAlignment_rerun readyHost ''u'' idleExtension [js ''  a'', js ''bb''])
     = [js '' a'', js ''bb'']"
proof -
  have "snd (alignmentTimer_padding readyHost ''u'' idleExtension [js ''  a'', js ''bb''])
          = [js ''  a'', js '' bb'']"
    by code_simp
  moreover have "snd (runAlignment_rerun readyHost ''u'' idleExtension [js ''  a'', js ''bb''])
          = [js '' a'', js ''bb'']"
    by code_simp
  ultimately show ?thesis by simp
qed

end
